theory Spec2Isabelle
  imports Complex_Main "HOL-Library.Sublist"
begin

unbundle bit_operations_syntax

section \<open>The backup action of rdiff-backup: check, setup, run\<close>

text \<open>
  A shallow embedding of \<^verbatim>\<open>src/rdiffbackup/actions/backup.py\<close>, class
  \<^verbatim>\<open>BackupAction\<close>. The module is a snapshot in the middle of a refactoring: it
  uses names it neither defines nor imports (\<^verbatim>\<open>Time\<close>, \<^verbatim>\<open>backup\<close>,
  \<^verbatim>\<open>rpath\<close>, \<^verbatim>\<open>Security\<close>, \<^verbatim>\<open>rpin\<close>, \<^verbatim>\<open>rpout\<close>,
  \<^verbatim>\<open>_incdir\<close>, \<^verbatim>\<open>_checkdest_if_necessary\<close>, the methods of the base class
  and of the RPath locations), and \<^verbatim>\<open>setup\<close> has two \<^verbatim>\<open>try\<close> lines without
  their colon and one unbalanced \<^verbatim>\<open>format(\<close> call. The embedding reads the
  statements as they are evidently meant (a \<^verbatim>\<open>try\<close> block with its handler) and
  takes every name defined elsewhere as a parameter (record \<open>env\<close>) or as a
  primitive modelled from the specification's description of a Location. What Python
  does with a statement is kept: the comparison of \<^verbatim>\<open>None\<close> with a number raises
  \<^verbatim>\<open>TypeError\<close>, and a template with the named field \<^verbatim>\<open>{rp}\<close> that is formatted
  with positional arguments only raises \<^verbatim>\<open>KeyError\<close>.
\<close>

subsection \<open>Locations and the filesystem\<close>

text \<open>
  A location is a path: the list of its components from the root of the namespace (the
  endpoint a location lives on is the first component). A filesystem is a tree; a
  directory keeps its entries in listing order.
\<close>

type_synonym path = "string list"

datatype node = File | Dir "(string \<times> node) list"

datatype error = TypeError | KeyError | OSError | RPathException | SecurityViolation | CollaboratorError

datatype severity = DEFAULT | INFO | WARNING | ERROR

text \<open>
  Everything the action does to the outside is an event: a log call (message template
  and the severity passed, if any), a mutating call on a location, or a call of a
  collaborator. The trace of a run is the list of its events in program order.
\<close>

datatype event =
    Log string "severity option"
  | Delete path
  | Delete_dir_no_files path
  | Mkdir path
  | Makedirs path
  | Chmod path nat
  | Globals_rbdir path
  | UpdateGlobal string path
  | BackupInitConnections path path
  | Backup_set_globals path bool
  | Quoted_rpaths path
  | Init_user_group_mapping path
  | Final_init path
  | Set_select path
  | Warn_if_infinite_recursion path path
  | Checkdest_if_necessary path
  | Setprevtime "int option"
  | Backup_touch_curmirror_local path path
  | Mirror_and_increment path path path
  | Backup_remove_curmirror_local
  | Mirror path path
  | Backup_close_statistics real

record world =
  fs :: node
  trace :: "event list"

text \<open>
  The parameters of one invocation: the two connected locations, the command-line
  values, what the base class and the absent helpers return, and the free names of
  \<^verbatim>\<open>run\<close>. \<open>mirror_time\<close> is the value of \<^verbatim>\<open>self._get_mirror_time(...)\<close>:
  \<open>None\<close> is Python's \<^verbatim>\<open>None\<close> (no completed backup recorded), \<open>Some t\<close> the recorded
  time. \<open>raises\<close> says which collaborator calls fail, and with what;
  \<open>security_violation\<close> says that the connection refuses the request to delete the
  increments directory.
\<close>

record env =
  rp_in :: path
  rp_out :: path
  force :: bool
  create_full_path :: bool
  chars_to_quote :: bool
  super_check :: int
  super_setup :: int
  mirror_time :: "int option"
  curtime :: int
  time_time :: real
  rpin :: path
  rpout :: path
  incdir :: path
  security_violation :: bool
  quoted_rpaths :: "path \<Rightarrow> path"
  raises :: "event \<Rightarrow> error option"

subsubsection \<open>Reading the tree\<close>

fun lookup :: "node \<Rightarrow> path \<Rightarrow> node option" where
  "lookup n [] = Some n"
| "lookup File (x # xs) = None"
| "lookup (Dir es) (x # xs) = (case map_of es x of None \<Rightarrow> None | Some c \<Rightarrow> lookup c xs)"

text \<open>Modelled from the spec: the existence check of a Location (\<^verbatim>\<open>lstat()\<close> is truthy).\<close>

definition lstat :: "node \<Rightarrow> path \<Rightarrow> bool" where
  "lstat t p = (lookup t p \<noteq> None)"

text \<open>Modelled from the spec: the type check of a Location (directory / file / none).\<close>

definition isdir :: "node \<Rightarrow> path \<Rightarrow> bool" where
  "isdir t p = (case lookup t p of Some (Dir es) \<Rightarrow> True | _ \<Rightarrow> False)"

text \<open>Modelled from the spec: list children. Listing what is not a directory raises.\<close>

definition listdir :: "node \<Rightarrow> path \<Rightarrow> error + string list" where
  "listdir t p = (case lookup t p of Some (Dir es) \<Rightarrow> Inr (map fst es) | _ \<Rightarrow> Inl OSError)"

text \<open>Modelled from the spec: the derived sub-locations (\<^verbatim>\<open>append\<close>, \<^verbatim>\<open>append_path\<close>).\<close>

definition append_path :: "path \<Rightarrow> string \<Rightarrow> path" where
  "append_path p name = p @ [name]"

definition rp_append :: "path \<Rightarrow> string \<Rightarrow> path" where
  "rp_append p name = p @ [name]"

subsubsection \<open>Changing the tree\<close>

text \<open>\<open>modify_at f t p\<close> applies \<open>f\<close> to the entries of the directory at \<open>p\<close>.\<close>

fun modify_at :: "((string \<times> node) list \<Rightarrow> (string \<times> node) list) \<Rightarrow> node \<Rightarrow> path \<Rightarrow> node" where
  "modify_at f File p = File"
| "modify_at f (Dir es) [] = Dir (f es)"
| "modify_at f (Dir es) (x # xs) =
     Dir (map (\<lambda>(k, c). if k = x then (k, modify_at f c xs) else (k, c)) es)"

text \<open>A directory contains files when an entry, at any depth, is not a directory.\<close>

fun contains_files :: "node \<Rightarrow> bool" where
  "contains_files File = False"
| "contains_files (Dir es) = (\<exists>c \<in> set (map snd es). c = File \<or> contains_files c)"

definition record_event :: "event \<Rightarrow> world \<Rightarrow> world" where
  "record_event e w = w\<lparr>trace := trace w @ [e]\<rparr>"

text \<open>Modelled from the spec: delete (recursive). The root and a missing path raise.\<close>

definition delete :: "path \<Rightarrow> world \<Rightarrow> (error + unit) \<times> world" where
  "delete p w =
     (let w1 = record_event (Delete p) w in
      if p = [] \<or> \<not> lstat (fs w1) p then (Inl OSError, w1)
      else (Inr (), w1\<lparr>fs := modify_at (filter (\<lambda>(k, c). k \<noteq> last p)) (fs w1) (butlast p)\<rparr>))"

text \<open>
  Modelled from the spec: delete (directory-must-be-empty), reached through the
  location's connection. The security layer may refuse the request; a location that is
  not a directory, or a directory that contains files, is rejected and left as it is.
\<close>

definition delete_dir_no_files :: "env \<Rightarrow> path \<Rightarrow> world \<Rightarrow> (error + unit) \<times> world" where
  "delete_dir_no_files env p w =
     (let w1 = record_event (Delete_dir_no_files p) w in
      if security_violation env then (Inl SecurityViolation, w1)
      else (case lookup (fs w1) p of
              Some (Dir es) \<Rightarrow>
                if p = [] \<or> contains_files (Dir es) then (Inl RPathException, w1)
                else (Inr (), w1\<lparr>fs := modify_at (filter (\<lambda>(k, c). k \<noteq> last p)) (fs w1) (butlast p)\<rparr>)
            | _ \<Rightarrow> (Inl RPathException, w1)))"

text \<open>Modelled from the spec: create, single level. The parent has to be a directory.\<close>

definition mkdir :: "path \<Rightarrow> world \<Rightarrow> (error + unit) \<times> world" where
  "mkdir p w =
     (let w1 = record_event (Mkdir p) w in
      if p = [] \<or> lstat (fs w1) p \<or> \<not> isdir (fs w1) (butlast p) then (Inl OSError, w1)
      else (Inr (), w1\<lparr>fs := modify_at (\<lambda>es. es @ [(last p, Dir [])]) (fs w1) (butlast p)\<rparr>))"

text \<open>Modelled from the spec: create, full path: every missing ancestor is created.\<close>

fun makedirs_from :: "node \<Rightarrow> path \<Rightarrow> path \<Rightarrow> error + node" where
  "makedirs_from t base [] = Inr t"
| "makedirs_from t base (x # xs) =
     (let p = base @ [x] in
      if isdir t p then makedirs_from t p xs
      else if lstat t p \<or> \<not> isdir t base then Inl OSError
      else makedirs_from (modify_at (\<lambda>es. es @ [(x, Dir [])]) t base) p xs)"

definition makedirs :: "path \<Rightarrow> world \<Rightarrow> (error + unit) \<times> world" where
  "makedirs p w =
     (let w1 = record_event (Makedirs p) w in
      if p = [] \<or> lstat (fs w1) p then (Inl OSError, w1)
      else (case makedirs_from (fs w1) [] p of
              Inl e \<Rightarrow> (Inl e, w1)
            | Inr t \<Rightarrow> (Inr (), w1\<lparr>fs := t\<rparr>)))"

text \<open>Modelled from the spec: set permissions. The tree does not record them.\<close>

definition chmod :: "path \<Rightarrow> nat \<Rightarrow> world \<Rightarrow> (error + unit) \<times> world" where
  "chmod p mode w =
     (let w1 = record_event (Chmod p mode) w in
      if lstat (fs w1) p then (Inr (), w1) else (Inl OSError, w1))"

subsection \<open>Logging and collaborators\<close>

text \<open>\<^verbatim>\<open>self.log(message, severity)\<close>; the message is kept as its template.\<close>

definition log :: "string \<Rightarrow> severity \<Rightarrow> world \<Rightarrow> world" where
  "log message sev w = record_event (Log message (Some sev)) w"

text \<open>\<^verbatim>\<open>self.log(message)\<close>, as the two handlers of \<^verbatim>\<open>setup\<close> call it.\<close>

definition log_plain :: "string \<Rightarrow> world \<Rightarrow> world" where
  "log_plain message w = record_event (Log message None) w"

text \<open>The message templates of the log calls, in the order of the module.\<close>

definition source_missing_msg :: string where
  "source_missing_msg = ''Source path {rp} does not exist''"

definition source_not_directory_msg :: string where
  "source_not_directory_msg = ''Source path {rp} is not a directory''"

definition destination_force_deleted_msg :: string where
  "destination_force_deleted_msg = ''Destination {rp} exists but isn't a directory, and will be force deleted''"

definition destination_not_directory_msg :: string where
  "destination_not_directory_msg = ''Destination {rp} exists and is not a directory, call with '--force' to overwrite''"

definition last_backup_not_past_msg :: string where
  "last_backup_not_past_msg = ''Time of Last backup is not in the past. This is probably caused by running two backups in less than a second. Wait a second and try again.''"

definition target_force_overwritten_msg :: string where
  "target_force_overwritten_msg = ''Target {rp} does not look like a rdiff-backup repository but will be force overwritten''"

definition target_not_repository_msg :: string where
  "target_not_repository_msg = ''Target {rp} does not look like a rdiff-backup repository, call with '--force' to overwrite''"

definition found_interrupted_msg :: string where
  "found_interrupted_msg = ''Found interrupted initial backup in {rp}. Removing...''"

definition increments_contain_files_msg :: string where
  "increments_contain_files_msg = ''Increments dir contains files.''"

definition no_resuming_msg :: string where
  "no_resuming_msg = ''Server doesn't support resuming.''"

definition cannot_create_increments_msg :: string where
  "cannot_create_increments_msg = ''Could not create 'increments' sub-directory in '{rp}' due to '{exc}'. Please fix the access rights and retry.''"

definition cannot_create_data_dir_msg :: string where
  "cannot_create_data_dir_msg = ''Could not create 'rdiff-backup-data' sub-directory in '{rp}' due to '{exc}'. Please fix the access rights and retry.''"

text \<open>
  A call of a collaborator is recorded; when the collaborator fails, its error
  propagates (nothing in the module catches it).
\<close>

definition invoke :: "env \<Rightarrow> event \<Rightarrow> world \<Rightarrow> (error + unit) \<times> world" where
  "invoke env e w =
     (case raises env e of
        Some err \<Rightarrow> (Inl err, record_event e w)
      | None \<Rightarrow> (Inr (), record_event e w))"

text \<open>Statements in sequence: the first one that raises ends the block.\<close>

fun seq :: "(world \<Rightarrow> (error + unit) \<times> world) list \<Rightarrow> world \<Rightarrow> (error + unit) \<times> world" where
  "seq [] w = (Inr (), w)"
| "seq (m # ms) w = (case m w of (Inl e, w1) \<Rightarrow> (Inl e, w1) | (Inr u, w1) \<Rightarrow> seq ms w1)"

text \<open>Python's truth value of what \<^verbatim>\<open>_get_mirror_time\<close> returned: \<^verbatim>\<open>None\<close> and \<^verbatim>\<open>0\<close> are false.\<close>

fun truthy :: "int option \<Rightarrow> bool" where
  "truthy None = False"
| "truthy (Some t) = (t \<noteq> 0)"

text \<open>\<^verbatim>\<open>bytes.startswith\<close>.\<close>

definition startswith :: "string \<Rightarrow> string \<Rightarrow> bool" where
  "startswith x pre = (take (length pre) x = pre)"

subsection \<open>check\<close>

text \<open>The first block of \<^verbatim>\<open>check\<close>: the source exists and is a directory.\<close>

definition check_source :: "env \<Rightarrow> int \<Rightarrow> world \<Rightarrow> int \<times> world" where
  "check_source env return_code w0 =
     (if \<not> lstat (fs w0) (rp_in env) then
        (return_code OR 1, log source_missing_msg ERROR w0)
      else if \<not> isdir (fs w0) (rp_in env) then
        (return_code OR 1, log source_not_directory_msg ERROR w0)
      else (return_code, w0))"

text \<open>
  The second block: the destination is a directory or does not exist, and a non-empty
  directory is a repository whose last backup is in the past. The comparison of
  \<^verbatim>\<open>None\<close> with the current time raises.
\<close>

definition check_destination :: "env \<Rightarrow> int \<Rightarrow> world \<Rightarrow> (error + int) \<times> world" where
  "check_destination env return_code w1 =
     (if lstat (fs w1) (rp_out env) \<and> \<not> isdir (fs w1) (rp_out env) then
        (if force env then
           (Inr return_code, log destination_force_deleted_msg WARNING w1)
         else
           (Inr (return_code OR 1), log destination_not_directory_msg ERROR w1))
      else
        (case (if lstat (fs w1) (rp_out env) \<and> isdir (fs w1) (rp_out env)
               then listdir (fs w1) (rp_out env) else Inr []) of
           Inl e \<Rightarrow> (Inl e, w1)
         | Inr [] \<Rightarrow> (Inr return_code, w1)
         | Inr (entry # entries) \<Rightarrow>
             (let rp_data_dir = append_path (rp_out env) ''rdiff-backup-data'' in
              if lstat (fs w1) rp_data_dir then
                (case mirror_time env of
                   None \<Rightarrow> (Inl TypeError, w1)
                 | Some previous_time \<Rightarrow>
                     if previous_time \<ge> curtime env then
                       (Inr (return_code OR 1), log last_backup_not_past_msg ERROR w1)
                     else (Inr return_code, w1))
              else if force env then
                (Inr return_code, log target_force_overwritten_msg WARNING w1)
              else
                (Inr (return_code OR 1), log target_not_repository_msg ERROR w1))))"

definition check :: "env \<Rightarrow> world \<Rightarrow> (error + int) \<times> world" where
  "check env w0 =
     (let return_code = super_check env;
          (return_code, w1) = check_source env return_code w0
      in check_destination env return_code w1)"

subsection \<open>Detecting and clearing a failed initial backup\<close>

definition is_failed_initial_backup :: "node \<Rightarrow> path \<Rightarrow> error + bool" where
  "is_failed_initial_backup t rp_dir =
     (if lstat t rp_dir then
        (case listdir t rp_dir of
           Inl e \<Rightarrow> Inl e
         | Inr rbdir_files \<Rightarrow>
             (let mirror_markers = filter (\<lambda>x. startswith x ''current_mirror'') rbdir_files;
                  error_logs = filter (\<lambda>x. startswith x ''error_log'') rbdir_files;
                  metadata_mirrors = filter (\<lambda>x. startswith x ''mirror_metadata'') rbdir_files
              in Inr (mirror_markers = [] \<and> length error_logs \<le> 1 \<and> length metadata_mirrors \<le> 1)))
      else Inr False)"

text \<open>The loop over the remaining names: only what is not a directory is deleted.\<close>

fun delete_remaining :: "path \<Rightarrow> string list \<Rightarrow> world \<Rightarrow> (error + unit) \<times> world" where
  "delete_remaining rp_dir [] w = (Inr (), w)"
| "delete_remaining rp_dir (file_name # rest) w =
     (let rp = append_path rp_dir file_name in
      if \<not> isdir (fs w) rp then
        (case delete rp w of
           (Inl e, w1) \<Rightarrow> (Inl e, w1)
         | (Inr u, w1) \<Rightarrow> delete_remaining rp_dir rest w1)
      else delete_remaining rp_dir rest w)"

definition fix_failed_initial_backup :: "env \<Rightarrow> path \<Rightarrow> world \<Rightarrow> (error + unit) \<times> world" where
  "fix_failed_initial_backup env rp_dir w0 =
     (let w1 = log found_interrupted_msg DEFAULT w0 in
      case listdir (fs w1) rp_dir of
        Inl e \<Rightarrow> (Inl e, w1)
      | Inr rbdir_files \<Rightarrow>
          if ''increments'' \<in> set rbdir_files then
            (let rbdir_files = remove1 ''increments'' rbdir_files;
                 rp = rp_append rp_dir ''increments''
             in case delete_dir_no_files env rp w1 of
                  (Inl RPathException, w2) \<Rightarrow> (Inr (), log increments_contain_files_msg INFO w2)
                | (Inl SecurityViolation, w2) \<Rightarrow> (Inr (), log no_resuming_msg WARNING w2)
                | (Inl e, w2) \<Rightarrow> (Inl e, w2)
                | (Inr u, w2) \<Rightarrow> delete_remaining rp_dir rbdir_files w2)
          else delete_remaining rp_dir rbdir_files w1)"

subsection \<open>setup\<close>

text \<open>The body of the first \<^verbatim>\<open>try\<close> block: make sure the target directory is present.\<close>

definition setup_target :: "env \<Rightarrow> world \<Rightarrow> (error + unit) \<times> world" where
  "setup_target env w0 =
     (case (if lstat (fs w0) (rp_out env) \<and> \<not> isdir (fs w0) (rp_out env) \<and> force env
            then delete (rp_out env) w0 else (Inr (), w0)) of
        (Inl e, w1) \<Rightarrow> (Inl e, w1)
      | (Inr u, w1) \<Rightarrow>
          if \<not> lstat (fs w1) (rp_out env) then
            seq [if create_full_path env then makedirs (rp_out env) else mkdir (rp_out env),
                 chmod (rp_out env) 448] w1
          else (Inr (), w1))"

text \<open>
  From the increments directory to the end of \<^verbatim>\<open>setup\<close>, which falls off its end
  (the result is Python's \<^verbatim>\<open>None\<close>, here \<open>Inr None\<close>).
\<close>

definition setup_increments :: "env \<Rightarrow> path \<Rightarrow> world \<Rightarrow> (error + int option) \<times> world" where
  "setup_increments env rp_data_dir w0 =
     (let rp_incs_dir = append_path rp_data_dir ''increments'' in
      case (if \<not> lstat (fs w0) rp_incs_dir then mkdir rp_incs_dir w0 else (Inr (), w0)) of
        (Inl OSError, w1) \<Rightarrow>
          (Inr (Some 1),
           log_plain cannot_create_increments_msg w1)
      | (Inl e, w1) \<Rightarrow> (Inl e, w1)
      | (Inr u, w1) \<Rightarrow>
          (let rp_out1 = (if chars_to_quote env then quoted_rpaths env (rp_out env) else rp_out env) in
           case seq ([invoke env (UpdateGlobal ''rbdir'' rp_data_dir),
                      invoke env (BackupInitConnections (rp_in env) (rp_out env)),
                      invoke env (Backup_set_globals (rp_in env) (force env))]
                     @ (if chars_to_quote env then [invoke env (Quoted_rpaths (rp_out env))] else [])
                     @ [invoke env (Init_user_group_mapping rp_out1),
                        invoke env (Final_init rp_out1),
                        invoke env (Set_select (rp_in env)),
                        invoke env (Warn_if_infinite_recursion (rpin env) (rpout env))]) w1 of
             (Inl e, w2) \<Rightarrow> (Inl e, w2)
           | (Inr u, w2) \<Rightarrow> (Inr None, w2)))"

text \<open>
  The handler of the first \<^verbatim>\<open>try\<close> block formats its message before it can log or
  return: \<^verbatim>\<open>"... {rp}".format(self.rp_out.get_safepath(), ...)\<close> passes the path
  positionally to the named field \<^verbatim>\<open>{rp}\<close>, wherever the missing parenthesis is put,
  so the handler raises \<^verbatim>\<open>KeyError\<close>; nothing is logged and 1 is not returned. The
  two later handlers format with keywords, log without a severity and return 1.
\<close>

definition setup_action :: "env \<Rightarrow> world \<Rightarrow> (error + int option) \<times> world" where
  "setup_action env w0 =
     (let return_code = super_setup env in
      if return_code \<noteq> 0 then (Inr (Some return_code), w0)
      else
        (case setup_target env w0 of
           (Inl OSError, w1) \<Rightarrow> (Inl KeyError, w1)
         | (Inl e, w1) \<Rightarrow> (Inl e, w1)
         | (Inr u, w1) \<Rightarrow>
             (let rp_data_dir = append_path (rp_out env) ''rdiff-backup-data'';
                  w2 = record_event (Globals_rbdir rp_data_dir) w1
              in
                if \<not> lstat (fs w2) rp_data_dir then
                  (case mkdir rp_data_dir w2 of
                     (Inl OSError, w3) \<Rightarrow>
                       (Inr (Some 1),
                        log_plain cannot_create_data_dir_msg w3)
                   | (Inl e, w3) \<Rightarrow> (Inl e, w3)
                   | (Inr u, w3) \<Rightarrow> setup_increments env rp_data_dir w3)
                else
                  (case is_failed_initial_backup (fs w2) rp_data_dir of
                     Inl e \<Rightarrow> (Inl e, w2)
                   | Inr True \<Rightarrow>
                       (case fix_failed_initial_backup env rp_data_dir w2 of
                          (Inl e, w3) \<Rightarrow> (Inl e, w3)
                        | (Inr u, w3) \<Rightarrow> setup_increments env rp_data_dir w3)
                   | Inr False \<Rightarrow> setup_increments env rp_data_dir w2))))"

subsection \<open>run\<close>

definition run :: "env \<Rightarrow> world \<Rightarrow> (error + unit) \<times> world" where
  "run env w =
     seq ([invoke env (Checkdest_if_necessary (rp_out env))]
          @ (let previous_time = mirror_time env in
             if truthy previous_time then
               [invoke env (Setprevtime previous_time),
                invoke env (Backup_touch_curmirror_local (rpin env) (rpout env)),
                invoke env (Mirror_and_increment (rpin env) (rpout env) (incdir env)),
                invoke env Backup_remove_curmirror_local]
             else
               [invoke env (Mirror (rpin env) (rpout env)),
                invoke env (Backup_touch_curmirror_local (rpin env) (rpout env))])
          @ [invoke env (Backup_close_statistics (time_time env))]) w"

section \<open>What the specification says, and example inputs\<close>

text \<open>
  ``At most one entry'' of a listing has a property: two positions that both have it are
  the same position.
\<close>

definition at_most_one :: "('a \<Rightarrow> bool) \<Rightarrow> 'a list \<Rightarrow> bool" where
  "at_most_one P xs = (\<forall>i<length xs. \<forall>j<length xs. P (xs ! i) \<and> P (xs ! j) \<longrightarrow> i = j)"

text \<open>
  The specification's detection rule: no current-mirror marker artifact, at most one
  error-log artifact, at most one metadata-mirror artifact.
\<close>

definition failed_initial_spec :: "string list \<Rightarrow> bool" where
  "failed_initial_spec listing =
     ((\<forall>x \<in> set listing. \<not> prefix ''current_mirror'' x)
      \<and> at_most_one (prefix ''error_log'') listing
      \<and> at_most_one (prefix ''mirror_metadata'') listing)"

text \<open>A repository whose first backup was interrupted, beside a source directory.\<close>

definition interrupted_fs :: node where
  "interrupted_fs =
     Dir [(''src'', Dir [(''a.txt'', File)]),
          (''repo'', Dir [(''rdiff-backup-data'',
             Dir [(''error_log.2021-03-01.data'', File),
                  (''increments'', Dir []),
                  (''mirror_metadata.2021-03-01.snapshot.gz'', File)])])]"

text \<open>The events a call added to the trace.\<close>

definition new_events :: "world \<Rightarrow> world \<Rightarrow> event list" where
  "new_events w w1 = drop (length (trace w)) (trace w1)"

text \<open>What happened before the first occurrence of an event, and what happened after it.\<close>

definition before_first :: "'a \<Rightarrow> 'a list \<Rightarrow> 'a list" where
  "before_first b xs = takeWhile (\<lambda>e. e \<noteq> b) xs"

definition after_first :: "'a \<Rightarrow> 'a list \<Rightarrow> 'a list" where
  "after_first b xs = tl (dropWhile (\<lambda>e. e \<noteq> b) xs)"

text \<open>The locations an event passes to a collaborator or acts on.\<close>

fun event_locations :: "event \<Rightarrow> path list" where
  "event_locations (Log m s) = []"
| "event_locations (Delete p) = [p]"
| "event_locations (Delete_dir_no_files p) = [p]"
| "event_locations (Mkdir p) = [p]"
| "event_locations (Makedirs p) = [p]"
| "event_locations (Chmod p m) = [p]"
| "event_locations (Globals_rbdir p) = [p]"
| "event_locations (UpdateGlobal k p) = [p]"
| "event_locations (BackupInitConnections p q) = [p, q]"
| "event_locations (Backup_set_globals p f) = [p]"
| "event_locations (Quoted_rpaths p) = [p]"
| "event_locations (Init_user_group_mapping p) = [p]"
| "event_locations (Final_init p) = [p]"
| "event_locations (Set_select p) = [p]"
| "event_locations (Warn_if_infinite_recursion p q) = [p, q]"
| "event_locations (Checkdest_if_necessary p) = [p]"
| "event_locations (Setprevtime t) = []"
| "event_locations (Backup_touch_curmirror_local p q) = [p, q]"
| "event_locations (Mirror_and_increment p q r) = [p, q, r]"
| "event_locations Backup_remove_curmirror_local = []"
| "event_locations (Mirror p q) = [p, q]"
| "event_locations (Backup_close_statistics t) = []"

text \<open>An invocation on the interrupted repository in which no collaborator fails.\<close>

definition example_env :: env where
  "example_env =
     \<lparr>rp_in = [''src''], rp_out = [''repo''], force = False, create_full_path = False,
      chars_to_quote = False, super_check = 0, super_setup = 0, mirror_time = None,
      curtime = 1614556800, time_time = 1614556860,
      rpin = [''src''], rpout = [''repo''],
      incdir = [''repo'', ''rdiff-backup-data'', ''increments''],
      security_violation = False, quoted_rpaths = (\<lambda>p. p), raises = (\<lambda>e. None)\<rparr>"

definition interrupted_world :: world where
  "interrupted_world = \<lparr>fs = interrupted_fs, trace = []\<rparr>"

text \<open>The calls that change the structure of the filesystem.\<close>

fun mutating :: "event \<Rightarrow> bool" where
  "mutating (Delete p) = True"
| "mutating (Delete_dir_no_files p) = True"
| "mutating (Mkdir p) = True"
| "mutating (Makedirs p) = True"
| "mutating (Chmod p m) = True"
| "mutating e = False"

text \<open>The log calls of a given severity among some events.\<close>

fun logged_at :: "severity \<Rightarrow> event \<Rightarrow> bool" where
  "logged_at sev (Log m s) = (s = Some sev)"
| "logged_at sev e = False"

text \<open>
  The four problems the specification lists for the validation: the source does not
  exist or is not a directory; the target exists, is not a directory, and force is not
  set; the target is a non-empty directory without a data directory, and force is not
  set; the target has a data directory whose recorded mirror time is not strictly
  before the current time.
\<close>

definition source_problem :: "env \<Rightarrow> node \<Rightarrow> bool" where
  "source_problem env t = (\<not> (lstat t (rp_in env) \<and> isdir t (rp_in env)))"

definition target_not_directory_problem :: "env \<Rightarrow> node \<Rightarrow> bool" where
  "target_not_directory_problem env t =
     (lstat t (rp_out env) \<and> \<not> isdir t (rp_out env) \<and> \<not> force env)"

definition target_not_repository_problem :: "env \<Rightarrow> node \<Rightarrow> bool" where
  "target_not_repository_problem env t =
     (isdir t (rp_out env) \<and> listdir t (rp_out env) \<noteq> Inr []
      \<and> \<not> lstat t (rp_out env @ [''rdiff-backup-data'']) \<and> \<not> force env)"

definition timestamp_problem :: "env \<Rightarrow> node \<Rightarrow> bool" where
  "timestamp_problem env t =
     (lstat t (rp_out env @ [''rdiff-backup-data''])
      \<and> (case mirror_time env of None \<Rightarrow> False | Some previous \<Rightarrow> curtime env \<le> previous))"

text \<open>
  \<^verbatim>\<open>check\<close> compares the previous mirror time with a number, which Python refuses for
  \<^verbatim>\<open>None\<close>: where the data directory exists, the comparison needs a recorded time.
\<close>

definition mirror_time_comparable :: "env \<Rightarrow> node \<Rightarrow> bool" where
  "mirror_time_comparable env t =
     (\<not> (lstat t (rp_out env @ [''rdiff-backup-data'']) \<and> mirror_time env = None))"

text \<open>
  The same interrupted first backup, but with a file already in the increments
  directory.
\<close>

definition advanced_fs :: node where
  "advanced_fs =
     Dir [(''src'', Dir [(''a.txt'', File)]),
          (''repo'', Dir [(''rdiff-backup-data'',
             Dir [(''error_log.2021-03-01.data'', File),
                  (''increments'', Dir [(''a.txt.2021-03-01.diff.gz'', File)]),
                  (''mirror_metadata.2021-03-01.snapshot.gz'', File)])])]"

definition advanced_world :: world where
  "advanced_world = \<lparr>fs = advanced_fs, trace = []\<rparr>"

text \<open>A repository with one completed backup.\<close>

definition valid_fs :: node where
  "valid_fs =
     Dir [(''src'', Dir [(''a.txt'', File)]),
          (''repo'', Dir [(''a.txt'', File),
             (''rdiff-backup-data'',
              Dir [(''current_mirror.2021-03-01.data'', File),
                   (''error_log.2021-03-01.data'', File),
                   (''increments'', Dir []),
                   (''mirror_metadata.2021-03-01.snapshot.gz'', File)])])]"

definition valid_world :: world where
  "valid_world = \<lparr>fs = valid_fs, trace = []\<rparr>"


section \<open>Properties\<close>

subsection \<open>Lists, strings and bits\<close>

lemma filter_empty_nth: "(filter P xs = []) = (\<forall>i<length xs. \<not> P (xs ! i))"
  by (simp add: filter_empty_conv all_set_conv_all_nth)

lemma at_most_one_Cons:
  "at_most_one P (x # xs) = (if P x then filter P xs = [] else at_most_one P xs)"
proof (cases "P x")
  case True
  show ?thesis
  proof
    assume a: "at_most_one P (x # xs)"
    have "\<forall>i<length xs. \<not> P (xs ! i)"
    proof (intro allI impI notI)
      fix i assume "i < length xs" "P (xs ! i)"
      with a True have "Suc i = 0"
        unfolding at_most_one_def
        by (metis length_Cons nth_Cons_0 nth_Cons_Suc Suc_less_eq zero_less_Suc)
      then show False by simp
    qed
    with True show "if P x then filter P xs = [] else at_most_one P xs"
      by (simp add: filter_empty_nth)
  next
    assume "if P x then filter P xs = [] else at_most_one P xs"
    with True have n: "\<forall>i<length xs. \<not> P (xs ! i)" by (simp add: filter_empty_nth)
    show "at_most_one P (x # xs)"
      unfolding at_most_one_def
    proof (intro allI impI)
      fix i j
      assume "i < length (x # xs)" "j < length (x # xs)" "P ((x # xs) ! i) \<and> P ((x # xs) ! j)"
      with n show "i = j" by (cases i; cases j) auto
    qed
  qed
next
  case False
  show ?thesis
  proof
    assume a: "at_most_one P (x # xs)"
    have "at_most_one P xs"
      unfolding at_most_one_def
    proof (intro allI impI)
      fix i j assume "i < length xs" "j < length xs" "P (xs ! i) \<and> P (xs ! j)"
      with a have "Suc i = Suc j"
        unfolding at_most_one_def by (metis length_Cons nth_Cons_Suc Suc_less_eq)
      then show "i = j" by simp
    qed
    with False show "if P x then filter P xs = [] else at_most_one P xs" by simp
  next
    assume "if P x then filter P xs = [] else at_most_one P xs"
    with False have n: "at_most_one P xs" by simp
    show "at_most_one P (x # xs)"
      unfolding at_most_one_def
    proof (intro allI impI)
      fix i j
      assume "i < length (x # xs)" "j < length (x # xs)" "P ((x # xs) ! i) \<and> P ((x # xs) ! j)"
      with n False show "i = j" unfolding at_most_one_def by (cases i; cases j) auto
    qed
  qed
qed

lemma length_filter_le_1: "(length (filter P xs) \<le> 1) = at_most_one P xs"
proof (induction xs)
  case Nil
  show ?case by (simp add: at_most_one_def)
next
  case (Cons x xs)
  then show ?case by (simp add: at_most_one_Cons)
qed

lemma startswith_prefix: "startswith x pre = prefix pre x"
  unfolding startswith_def by (metis append_eq_conv_conj prefix_def take_is_prefix)

subsection \<open>Failed-initial classification\<close>

lemma classify_listing:
  "(filter (\<lambda>x. startswith x ''current_mirror'') l = []
      \<and> length (filter (\<lambda>x. startswith x ''error_log'') l) \<le> 1
      \<and> length (filter (\<lambda>x. startswith x ''mirror_metadata'') l) \<le> 1)
   = failed_initial_spec l"
  unfolding failed_initial_spec_def startswith_prefix length_filter_le_1 filter_empty_conv
  by (rule refl)

text \<open>
  C3. For a data directory that exists (a directory with entries \<open>es\<close>),
  \<^verbatim>\<open>_is_failed_initial_backup\<close> returns, without raising, True exactly when the
  listing has no entry starting with \<^verbatim>\<open>current_mirror\<close>, at most one entry starting
  with \<^verbatim>\<open>error_log\<close> and at most one entry starting with \<^verbatim>\<open>mirror_metadata\<close>.
\<close>

theorem failed_initial_classification:
  assumes "lookup t rp_dir = Some (Dir es)"
  shows "is_failed_initial_backup t rp_dir = Inr (failed_initial_spec (map fst es))"
proof -
  have "is_failed_initial_backup t rp_dir =
      Inr (filter (\<lambda>x. startswith x ''current_mirror'') (map fst es) = []
      \<and> length (filter (\<lambda>x. startswith x ''error_log'') (map fst es)) \<le> 1
      \<and> length (filter (\<lambda>x. startswith x ''mirror_metadata'') (map fst es)) \<le> 1)"
    using assms
    by (simp add: is_failed_initial_backup_def lstat_def listdir_def)
  then show ?thesis
    by (simp only: classify_listing)
qed

theorem failed_initial_classification_witness:
  "lookup interrupted_fs [''repo'', ''rdiff-backup-data'']
     = Some (Dir [(''error_log.2021-03-01.data'', File),
                  (''increments'', Dir []),
                  (''mirror_metadata.2021-03-01.snapshot.gz'', File)])
   \<and> is_failed_initial_backup interrupted_fs [''repo'', ''rdiff-backup-data'']
     = Inr (failed_initial_spec [''error_log.2021-03-01.data'', ''increments'',
                                 ''mirror_metadata.2021-03-01.snapshot.gz''])
   \<and> is_failed_initial_backup interrupted_fs [''repo'', ''rdiff-backup-data''] = Inr True"
proof -
  have h: "lookup interrupted_fs [''repo'', ''rdiff-backup-data'']
     = Some (Dir [(''error_log.2021-03-01.data'', File),
                  (''increments'', Dir []),
                  (''mirror_metadata.2021-03-01.snapshot.gz'', File)])"
    by (simp add: interrupted_fs_def)
  have e: "is_failed_initial_backup interrupted_fs [''repo'', ''rdiff-backup-data''] = Inr True"
    by (simp add: is_failed_initial_backup_def lstat_def listdir_def h startswith_def)
  from failed_initial_classification [OF h] h e show ?thesis by simp
qed

subsection \<open>run: dispatch and the order of the calls\<close>

lemma run_no_raise:
  assumes "\<forall>e. raises env e = None"
  shows "run env w =
    (Inr (), w\<lparr>trace := trace w @
       (if truthy (mirror_time env) then
          [Checkdest_if_necessary (rp_out env),
           Setprevtime (mirror_time env),
           Backup_touch_curmirror_local (rpin env) (rpout env),
           Mirror_and_increment (rpin env) (rpout env) (incdir env),
           Backup_remove_curmirror_local,
           Backup_close_statistics (time_time env)]
        else
          [Checkdest_if_necessary (rp_out env),
           Mirror (rpin env) (rpout env),
           Backup_touch_curmirror_local (rpin env) (rpout env),
           Backup_close_statistics (time_time env)])\<rparr>)"
  using assms by (simp add: run_def invoke_def record_event_def Let_def)

lemma seq_invoke_trace:
  "\<exists>k. trace (snd (seq (map (invoke env) es) w)) = trace w @ take k es"
proof (induction es arbitrary: w)
  case Nil
  show ?case by simp
next
  case (Cons e es)
  show ?case
  proof (cases "raises env e")
    case None
    from Cons [of "record_event e w"] obtain k where
      "trace (snd (seq (map (invoke env) es) (record_event e w))) = trace (record_event e w) @ take k es"
      by blast
    with None have "trace (snd (seq (map (invoke env) (e # es)) w)) = trace w @ take (Suc k) (e # es)"
      by (simp add: invoke_def record_event_def)
    then show ?thesis by blast
  next
    case (Some err)
    then have "trace (snd (seq (map (invoke env) (e # es)) w)) = trace w @ take (Suc 0) (e # es)"
      by (simp add: invoke_def record_event_def)
    then show ?thesis by blast
  qed
qed

lemma seq_invoke_new_events:
  "set (new_events w (snd (seq (map (invoke env) es) w))) \<subseteq> set es"
proof -
  obtain k where "trace (snd (seq (map (invoke env) es) w)) = trace w @ take k es"
    using seq_invoke_trace by blast
  then have "new_events w (snd (seq (map (invoke env) es) w)) = take k es"
    by (simp add: new_events_def)
  then show ?thesis by (simp add: set_take_subset)
qed

lemma run_new_events_truthy:
  assumes "truthy (mirror_time env)"
  shows "set (new_events w (snd (run env w))) \<subseteq>
     {Checkdest_if_necessary (rp_out env), Setprevtime (mirror_time env),
      Backup_touch_curmirror_local (rpin env) (rpout env),
      Mirror_and_increment (rpin env) (rpout env) (incdir env),
      Backup_remove_curmirror_local, Backup_close_statistics (time_time env)}"
proof -
  have "run env w = seq (map (invoke env)
     [Checkdest_if_necessary (rp_out env), Setprevtime (mirror_time env),
      Backup_touch_curmirror_local (rpin env) (rpout env),
      Mirror_and_increment (rpin env) (rpout env) (incdir env),
      Backup_remove_curmirror_local, Backup_close_statistics (time_time env)]) w"
    using assms by (simp add: run_def Let_def)
  then show ?thesis
    using seq_invoke_new_events [of w env "[Checkdest_if_necessary (rp_out env), Setprevtime (mirror_time env),
      Backup_touch_curmirror_local (rpin env) (rpout env),
      Mirror_and_increment (rpin env) (rpout env) (incdir env),
      Backup_remove_curmirror_local, Backup_close_statistics (time_time env)]"]
    by simp
qed

lemma run_new_events_falsy:
  assumes "\<not> truthy (mirror_time env)"
  shows "set (new_events w (snd (run env w))) \<subseteq>
     {Checkdest_if_necessary (rp_out env), Mirror (rpin env) (rpout env),
      Backup_touch_curmirror_local (rpin env) (rpout env),
      Backup_close_statistics (time_time env)}"
proof -
  have "run env w = seq (map (invoke env)
     [Checkdest_if_necessary (rp_out env), Mirror (rpin env) (rpout env),
      Backup_touch_curmirror_local (rpin env) (rpout env),
      Backup_close_statistics (time_time env)]) w"
    using assms by (simp add: run_def Let_def)
  then show ?thesis
    using seq_invoke_new_events [of w env "[Checkdest_if_necessary (rp_out env), Mirror (rpin env) (rpout env),
      Backup_touch_curmirror_local (rpin env) (rpout env),
      Backup_close_statistics (time_time env)]"]
    by simp
qed

text \<open>
  C1, as the code has it. \<^verbatim>\<open>run\<close> tests the truth value of the previous mirror time.
  When the recorded time is not 0, no run invokes the full-mirror collaborator
  \<^verbatim>\<open>Mirror\<close>, and a run in which no collaborator fails invokes
  \<^verbatim>\<open>Mirror_and_increment\<close>. When no time is recorded, no run invokes
  \<^verbatim>\<open>Mirror_and_increment\<close>, no call is passed the increments location (where that
  location is not one of the other locations \<^verbatim>\<open>run\<close> names), and a run in which
  no collaborator fails invokes \<^verbatim>\<open>Mirror\<close>.
\<close>

theorem dispatch_branching:
  "let evs = new_events w (snd (run env w)) in
     (mirror_time env = Some t \<and> t \<noteq> 0 \<longrightarrow>
        (\<forall>a b. Mirror a b \<notin> set evs)
        \<and> ((\<forall>e. raises env e = None) \<longrightarrow>
             Mirror_and_increment (rpin env) (rpout env) (incdir env) \<in> set evs))
     \<and> (mirror_time env = None \<longrightarrow>
        (\<forall>a b c. Mirror_and_increment a b c \<notin> set evs)
        \<and> (incdir env \<notin> {rp_out env, rpin env, rpout env} \<longrightarrow>
             (\<forall>e \<in> set evs. incdir env \<notin> set (event_locations e)))
        \<and> ((\<forall>e. raises env e = None) \<longrightarrow> Mirror (rpin env) (rpout env) \<in> set evs))"
proof -
  have a: "\<forall>a b. Mirror a b \<notin> set (new_events w (snd (run env w)))"
    if "mirror_time env = Some t" "t \<noteq> 0"
    using run_new_events_truthy [of env w] that by auto
  have b: "Mirror_and_increment (rpin env) (rpout env) (incdir env) \<in> set (new_events w (snd (run env w)))"
    if "mirror_time env = Some t" "t \<noteq> 0" "\<forall>e. raises env e = None"
    using that by (simp add: run_no_raise new_events_def)
  have c: "\<forall>a b c. Mirror_and_increment a b c \<notin> set (new_events w (snd (run env w)))"
    if "mirror_time env = None"
    using run_new_events_falsy [of env w] that by auto
  have d: "\<forall>e \<in> set (new_events w (snd (run env w))). incdir env \<notin> set (event_locations e)"
    if "mirror_time env = None" "incdir env \<notin> {rp_out env, rpin env, rpout env}"
    using run_new_events_falsy [of env w] that by auto
  have e: "Mirror (rpin env) (rpout env) \<in> set (new_events w (snd (run env w)))"
    if "mirror_time env = None" "\<forall>e. raises env e = None"
    using that by (simp add: run_no_raise new_events_def)
  from a b c d e show ?thesis unfolding Let_def by blast
qed

theorem dispatch_branching_witness:
  "(mirror_time (example_env\<lparr>mirror_time := Some 1614470400\<rparr>) = Some 1614470400 \<and> (1614470400::int) \<noteq> 0)
   \<and> (\<forall>e. raises (example_env\<lparr>mirror_time := Some 1614470400\<rparr>) e = None)
   \<and> (\<forall>a b. Mirror a b \<notin> set (new_events interrupted_world
          (snd (run (example_env\<lparr>mirror_time := Some 1614470400\<rparr>) interrupted_world))))
   \<and> Mirror_and_increment [''src''] [''repo''] [''repo'', ''rdiff-backup-data'', ''increments'']
        \<in> set (new_events interrupted_world
          (snd (run (example_env\<lparr>mirror_time := Some 1614470400\<rparr>) interrupted_world)))
   \<and> mirror_time example_env = None
   \<and> (\<forall>e. raises example_env e = None)
   \<and> incdir example_env \<notin> {rp_out example_env, rpin example_env, rpout example_env}
   \<and> (\<forall>a b c. Mirror_and_increment a b c \<notin> set (new_events interrupted_world (snd (run example_env interrupted_world))))
   \<and> list_all (\<lambda>e. incdir example_env \<notin> set (event_locations e))
        (new_events interrupted_world (snd (run example_env interrupted_world)))
   \<and> Mirror [''src''] [''repo''] \<in> set (new_events interrupted_world (snd (run example_env interrupted_world)))"
proof -
  have h1: "mirror_time (example_env\<lparr>mirror_time := Some 1614470400\<rparr>) = Some 1614470400 \<and> (1614470400::int) \<noteq> 0"
    by simp
  have h2: "\<forall>e. raises (example_env\<lparr>mirror_time := Some 1614470400\<rparr>) e = None"
    by (simp add: example_env_def)
  have h3: "mirror_time example_env = None" "\<forall>e. raises example_env e = None"
    "incdir example_env \<notin> {rp_out example_env, rpin example_env, rpout example_env}"
    "rpin example_env = [''src'']" "rpout example_env = [''repo'']"
    "incdir example_env = [''repo'', ''rdiff-backup-data'', ''increments'']"
    by (simp_all add: example_env_def)
  from dispatch_branching [of interrupted_world "example_env\<lparr>mirror_time := Some 1614470400\<rparr>" 1614470400]
    dispatch_branching [of interrupted_world example_env 0] h1 h2 h3
  show ?thesis
    unfolding Let_def list_all_iff by (simp add: example_env_def)
qed

text \<open>
  C1 as the claim states it fails for a recorded previous mirror time of 0: the run
  invokes \<^verbatim>\<open>Mirror\<close> and not \<^verbatim>\<open>Mirror_and_increment\<close>.
\<close>

theorem dispatch_recorded_zero_counterexample:
  "mirror_time (example_env\<lparr>mirror_time := Some 0\<rparr>) = Some 0
   \<and> Mirror [''src''] [''repo'']
       \<in> set (new_events interrupted_world (snd (run (example_env\<lparr>mirror_time := Some 0\<rparr>) interrupted_world)))
   \<and> Mirror_and_increment [''src''] [''repo''] [''repo'', ''rdiff-backup-data'', ''increments'']
       \<notin> set (new_events interrupted_world (snd (run (example_env\<lparr>mirror_time := Some 0\<rparr>) interrupted_world)))"
proof -
  have h: "\<forall>e. raises (example_env\<lparr>mirror_time := Some 0\<rparr>) e = None"
    by (simp add: example_env_def)
  show ?thesis
    by (simp add: run_no_raise [OF h] new_events_def) (simp add: example_env_def)
qed

lemma invoke_mirror_time: "invoke (env\<lparr>mirror_time := x\<rparr>) = invoke env"
  by (simp add: invoke_def fun_eq_iff)

text \<open>
  C10. For a recorded previous mirror time equal to 0, \<^verbatim>\<open>run\<close> does exactly what
  it does when no completed backup is recorded: the full-mirror branch
  (check destination, \<^verbatim>\<open>Mirror\<close>, touch the marker, close the statistics).
\<close>

theorem zero_timestamp_takes_full_mirror:
  assumes "mirror_time env = Some 0"
  shows "run env w = run (env\<lparr>mirror_time := None\<rparr>) w
     \<and> run env w =
         seq [invoke env (Checkdest_if_necessary (rp_out env)),
              invoke env (Mirror (rpin env) (rpout env)),
              invoke env (Backup_touch_curmirror_local (rpin env) (rpout env)),
              invoke env (Backup_close_statistics (time_time env))] w"
  using assms by (simp add: run_def Let_def invoke_mirror_time)

theorem zero_timestamp_takes_full_mirror_witness:
  "mirror_time (example_env\<lparr>mirror_time := Some 0\<rparr>) = Some 0
   \<and> run (example_env\<lparr>mirror_time := Some 0\<rparr>) interrupted_world
       = run (example_env\<lparr>mirror_time := Some 0, mirror_time := None\<rparr>) interrupted_world
   \<and> new_events interrupted_world (snd (run (example_env\<lparr>mirror_time := Some 0\<rparr>) interrupted_world))
       = [Checkdest_if_necessary [''repo''], Mirror [''src''] [''repo''],
          Backup_touch_curmirror_local [''src''] [''repo''], Backup_close_statistics 1614556860]"
proof -
  have h: "mirror_time (example_env\<lparr>mirror_time := Some 0\<rparr>) = Some 0" by simp
  have r: "\<forall>e. raises (example_env\<lparr>mirror_time := Some 0\<rparr>) e = None"
    by (simp add: example_env_def)
  have n: "new_events interrupted_world (snd (run (example_env\<lparr>mirror_time := Some 0\<rparr>) interrupted_world))
       = [Checkdest_if_necessary [''repo''], Mirror [''src''] [''repo''],
          Backup_touch_curmirror_local [''src''] [''repo''], Backup_close_statistics 1614556860]"
    by (simp add: run_no_raise [OF r] new_events_def) (simp add: example_env_def)
  from zero_timestamp_takes_full_mirror [OF h, of interrupted_world] h n show ?thesis
    by simp
qed

text \<open>
  C6. In a run in which no collaborator fails: in the incremental branch the
  current-mirror marker is written before \<^verbatim>\<open>Mirror_and_increment\<close> is invoked and is
  removed after it, not before; in the full-mirror branch the marker is written after
  \<^verbatim>\<open>Mirror\<close> and not before; in both branches the last call closes the statistics
  with the value of \<^verbatim>\<open>time.time()\<close>.
\<close>

theorem marker_ordering:
  assumes "\<forall>e. raises env e = None"
  shows "let evs = new_events w (snd (run env w));
             touch = Backup_touch_curmirror_local (rpin env) (rpout env);
             incremental = Mirror_and_increment (rpin env) (rpout env) (incdir env);
             full = Mirror (rpin env) (rpout env)
         in fst (run env w) = Inr ()
            \<and> (if truthy (mirror_time env) then
                 incremental \<in> set evs
                 \<and> touch \<in> set (before_first incremental evs)
                 \<and> Backup_remove_curmirror_local \<notin> set (before_first incremental evs)
                 \<and> Backup_remove_curmirror_local \<in> set (after_first incremental evs)
               else
                 full \<in> set evs
                 \<and> touch \<notin> set (before_first full evs)
                 \<and> touch \<in> set (after_first full evs))
            \<and> last evs = Backup_close_statistics (time_time env)
            \<and> evs =
                (if truthy (mirror_time env) then
                   [Checkdest_if_necessary (rp_out env), Setprevtime (mirror_time env), touch,
                    incremental, Backup_remove_curmirror_local,
                    Backup_close_statistics (time_time env)]
                 else
                   [Checkdest_if_necessary (rp_out env), full, touch,
                    Backup_close_statistics (time_time env)])"
  by (simp add: run_no_raise [OF assms] new_events_def before_first_def after_first_def Let_def)

theorem marker_ordering_witness:
  "(\<forall>e. raises (example_env\<lparr>mirror_time := Some 1614470400\<rparr>) e = None)
   \<and> new_events interrupted_world (snd (run (example_env\<lparr>mirror_time := Some 1614470400\<rparr>) interrupted_world))
      = [Checkdest_if_necessary [''repo''], Setprevtime (Some 1614470400),
         Backup_touch_curmirror_local [''src''] [''repo''],
         Mirror_and_increment [''src''] [''repo''] [''repo'', ''rdiff-backup-data'', ''increments''],
         Backup_remove_curmirror_local, Backup_close_statistics 1614556860]
   \<and> last (new_events interrupted_world (snd (run (example_env\<lparr>mirror_time := Some 1614470400\<rparr>) interrupted_world)))
      = Backup_close_statistics 1614556860"
proof -
  have h: "\<forall>e. raises (example_env\<lparr>mirror_time := Some 1614470400\<rparr>) e = None"
    by (simp add: example_env_def)
  have r: "new_events interrupted_world (snd (run (example_env\<lparr>mirror_time := Some 1614470400\<rparr>) interrupted_world))
      = [Checkdest_if_necessary [''repo''], Setprevtime (Some 1614470400),
         Backup_touch_curmirror_local [''src''] [''repo''],
         Mirror_and_increment [''src''] [''repo''] [''repo'', ''rdiff-backup-data'', ''increments''],
         Backup_remove_curmirror_local, Backup_close_statistics 1614556860]"
    by (simp add: run_no_raise [OF h] new_events_def) (simp add: example_env_def interrupted_world_def)
  from marker_ordering [OF h, of interrupted_world] h r show ?thesis
    by (simp add: Let_def example_env_def)
qed

subsection \<open>check: the verdict and its frame\<close>

lemma lookup_snoc:
  "lookup t (p @ [x]) = (case lookup t p of Some (Dir es) \<Rightarrow> map_of es x | _ \<Rightarrow> None)"
proof (induction t p rule: lookup.induct)
  case (1 n)
  then show ?case by (cases n) (auto split: option.splits)
next
  case (2 y ys)
  then show ?case by simp
next
  case (3 es y ys)
  then show ?case by (auto split: option.splits)
qed

lemma child_exists_parent:
  assumes "lstat t (p @ [x])"
  shows "lstat t p \<and> isdir t p \<and> (\<exists>e es. listdir t p = Inr (e # es))"
proof -
  from assms obtain es c where l: "lookup t p = Some (Dir es)" and m: "map_of es x = Some c"
    by (auto simp: lstat_def lookup_snoc split: option.splits node.splits)
  from m have "es \<noteq> []" by auto
  then obtain e es' where "es = e # es'" by (cases es) auto
  with l show ?thesis by (simp add: lstat_def isdir_def listdir_def)
qed

lemma isdir_listdir: "isdir t p \<Longrightarrow> \<exists>l. listdir t p = Inr l"
  by (auto simp: isdir_def listdir_def split: option.splits node.splits)

lemma isdir_lstat: "isdir t p \<Longrightarrow> lstat t p"
  by (auto simp: isdir_def lstat_def split: option.splits node.splits)

lemma fs_log [simp]: "fs (log m s w) = fs w"
  by (simp add: log_def record_event_def)

lemma trace_log [simp]: "trace (log m s w) = trace w @ [Log m (Some s)]"
  by (simp add: log_def record_event_def)

lemma check_source_eq:
  "check_source env rc w =
     (rc OR of_bool (source_problem env (fs w)),
      if \<not> lstat (fs w) (rp_in env) then log source_missing_msg ERROR w
      else if \<not> isdir (fs w) (rp_in env) then log source_not_directory_msg ERROR w
      else w)"
  by (simp add: check_source_def source_problem_def)

lemma check_destination_eq:
  assumes "mirror_time_comparable env (fs w)"
  shows "check_destination env rc w =
     (Inr (rc OR of_bool (target_not_directory_problem env (fs w))
              OR of_bool (target_not_repository_problem env (fs w))
              OR of_bool (timestamp_problem env (fs w))),
      if lstat (fs w) (rp_out env) \<and> \<not> isdir (fs w) (rp_out env) then
        (if force env then log destination_force_deleted_msg WARNING w
         else log destination_not_directory_msg ERROR w)
      else if timestamp_problem env (fs w) then log last_backup_not_past_msg ERROR w
      else if isdir (fs w) (rp_out env) \<and> listdir (fs w) (rp_out env) \<noteq> Inr []
              \<and> \<not> lstat (fs w) (rp_out env @ [''rdiff-backup-data''])
      then (if force env then log target_force_overwritten_msg WARNING w
            else log target_not_repository_msg ERROR w)
      else w)"
proof (cases "lstat (fs w) (rp_out env @ [''rdiff-backup-data''])")
  case True
  then obtain e es where
    "lstat (fs w) (rp_out env)" "isdir (fs w) (rp_out env)" "listdir (fs w) (rp_out env) = Inr (e # es)"
    using child_exists_parent by blast
  moreover from True assms obtain t where "mirror_time env = Some t"
    by (auto simp: mirror_time_comparable_def)
  ultimately show ?thesis using True
    by (simp add: check_destination_def append_path_def timestamp_problem_def
        target_not_directory_problem_def target_not_repository_problem_def)
next
  case False
  then have nt: "\<not> timestamp_problem env (fs w)" by (simp add: timestamp_problem_def)
  show ?thesis
  proof (cases "isdir (fs w) (rp_out env)")
    case True
    then obtain l where l: "listdir (fs w) (rp_out env) = Inr l" using isdir_listdir by blast
    from True have "lstat (fs w) (rp_out env)" by (rule isdir_lstat)
    with True l False nt show ?thesis
      by (cases l) (simp_all add: check_destination_def append_path_def
          target_not_directory_problem_def target_not_repository_problem_def)
  next
    case nd: False
    with False nt show ?thesis
      by (simp add: check_destination_def append_path_def
          target_not_directory_problem_def target_not_repository_problem_def)
  qed
qed


lemma check_destination_verdict:
  "fst (check_destination env rc w) = Inr r \<Longrightarrow> r = rc \<or> r = rc OR 1"
  by (auto simp: check_destination_def Let_def split: if_splits sum.splits list.splits option.splits)

lemma check_destination_world:
  "snd (check_destination env rc w) = w \<or> (\<exists>m s. snd (check_destination env rc w) = log m s w)"
  by (auto simp: check_destination_def Let_def split: if_splits sum.splits list.splits option.splits)

lemma check_source_world:
  "snd (check_source env rc w) = w \<or> (\<exists>m s. snd (check_source env rc w) = log m s w)"
  by (auto simp: check_source_def)

lemma check_eq:
  "check env w =
     check_destination env (fst (check_source env (super_check env) w))
       (snd (check_source env (super_check env) w))"
  by (simp add: check_def Let_def split: prod.splits)

lemma check_world:
  "\<exists>evs. snd (check env w) = w\<lparr>trace := trace w @ evs\<rparr> \<and> filter mutating evs = []"
proof -
  let ?w1 = "snd (check_source env (super_check env) w)"
  let ?rc = "fst (check_source env (super_check env) w)"
  from check_source_world [of env "super_check env" w]
  obtain e1 where 1: "?w1 = w\<lparr>trace := trace w @ e1\<rparr>" "filter mutating e1 = []"
  proof
    assume "?w1 = w"
    then have "?w1 = w\<lparr>trace := trace w @ []\<rparr>" by simp
    with that [of "[]"] show thesis by simp
  next
    assume "\<exists>m s. ?w1 = log m s w"
    then obtain m s where "?w1 = log m s w" by blast
    then have "?w1 = w\<lparr>trace := trace w @ [Log m (Some s)]\<rparr>" by (simp add: log_def record_event_def)
    with that [of "[Log m (Some s)]"] show thesis by simp
  qed
  from check_destination_world [of env ?rc ?w1]
  obtain e2 where 2: "snd (check_destination env ?rc ?w1) = ?w1\<lparr>trace := trace ?w1 @ e2\<rparr>" "filter mutating e2 = []"
  proof
    assume "snd (check_destination env ?rc ?w1) = ?w1"
    then have "snd (check_destination env ?rc ?w1) = ?w1\<lparr>trace := trace ?w1 @ []\<rparr>" by simp
    with that [of "[]"] show thesis by simp
  next
    assume "\<exists>m s. snd (check_destination env ?rc ?w1) = log m s ?w1"
    then obtain m s where "snd (check_destination env ?rc ?w1) = log m s ?w1" by blast
    then have "snd (check_destination env ?rc ?w1) = ?w1\<lparr>trace := trace ?w1 @ [Log m (Some s)]\<rparr>"
      by (simp add: log_def record_event_def)
    with that [of "[Log m (Some s)]"] show thesis by simp
  qed
  from 1 2 have "snd (check env w) = w\<lparr>trace := trace w @ (e1 @ e2)\<rparr> \<and> filter mutating (e1 @ e2) = []"
    by (simp add: check_eq)
  then show ?thesis by blast
qed

lemma interrupted_data_dir:
  "lookup interrupted_fs [''repo'', ''rdiff-backup-data'']
     = Some (Dir [(''error_log.2021-03-01.data'', File),
                  (''increments'', Dir []),
                  (''mirror_metadata.2021-03-01.snapshot.gz'', File)])"
  by (simp add: interrupted_fs_def)

lemma interrupted_repo:
  "lookup interrupted_fs [''repo'']
     = Some (Dir [(''rdiff-backup-data'',
             Dir [(''error_log.2021-03-01.data'', File),
                  (''increments'', Dir []),
                  (''mirror_metadata.2021-03-01.snapshot.gz'', File)])])"
  by (simp add: interrupted_fs_def)

lemma interrupted_nowhere: "lookup interrupted_fs [''nowhere''] = None"
  by (simp add: interrupted_fs_def)

text \<open>
  C2. When the data directory of the target exists and the recorded previous mirror
  time is greater than or equal to the current time, \<^verbatim>\<open>check\<close> returns a verdict
  that is not zero, whatever the force flag is.
\<close>

theorem stale_timestamp_fails:
  assumes "lstat (fs w) (append_path (rp_out env) ''rdiff-backup-data'')"
    and "mirror_time env = Some t" and "curtime env \<le> t"
  shows "\<exists>rc. fst (check (env\<lparr>force := f\<rparr>) w) = Inr rc \<and> rc \<noteq> 0"
proof -
  define env1 where "env1 = env\<lparr>force := f\<rparr>"
  define w1 where "w1 = snd (check_source env1 (super_check env1) w)"
  have fs1: "fs w1 = fs w" by (simp add: w1_def check_source_eq)
  from assms have c: "mirror_time_comparable env1 (fs w1)"
    by (simp add: mirror_time_comparable_def env1_def)
  from assms have ts: "timestamp_problem env1 (fs w1)"
    by (simp add: timestamp_problem_def fs1 append_path_def env1_def)
  have "check env1 w = check_destination env1 (fst (check_source env1 (super_check env1) w)) w1"
    by (simp add: check_eq w1_def)
  with check_destination_eq [OF c] ts show ?thesis
    by (simp add: or_eq_0_iff env1_def [symmetric])
qed

text \<open>
  What holds of \<^verbatim>\<open>check\<close> on every input with a bad source (one that does not
  exist, or exists and is not a directory): it leaves the filesystem as it was and makes
  no mutating call (it only logs), and it never returns the verdict zero. Where the
  comparison of the mirror time is defined (a time is recorded whenever the data
  directory exists) it returns a verdict, and the verdict is not zero.
\<close>

theorem bad_source_fails:
  assumes "\<not> lstat (fs w) (rp_in env) \<or> \<not> isdir (fs w) (rp_in env)"
  shows "fs (snd (check env w)) = fs w
     \<and> filter mutating (new_events w (snd (check env w))) = []
     \<and> fst (check env w) \<noteq> Inr 0
     \<and> (mirror_time_comparable env (fs w) \<longrightarrow> (\<exists>rc. fst (check env w) = Inr rc \<and> rc \<noteq> 0))"
proof -
  let ?w1 = "snd (check_source env (super_check env) w)"
  let ?rc = "fst (check_source env (super_check env) w)"
  obtain evs where w: "snd (check env w) = w\<lparr>trace := trace w @ evs\<rparr>" "filter mutating evs = []"
    using check_world by blast
  then have 1: "fs (snd (check env w)) = fs w" and 2: "filter mutating (new_events w (snd (check env w))) = []"
    by (simp_all add: new_events_def)
  from assms have rc: "?rc = super_check env OR 1"
    by (auto simp: check_source_eq source_problem_def)
  have 3: "fst (check env w) \<noteq> Inr 0"
  proof
    assume "fst (check env w) = Inr 0"
    then have "fst (check_destination env ?rc ?w1) = Inr 0" by (simp add: check_eq)
    from check_destination_verdict [OF this] rc show False by (auto simp: or_eq_0_iff)
  qed
  have 4: "\<exists>r. fst (check env w) = Inr r \<and> r \<noteq> 0" if "mirror_time_comparable env (fs w)"
  proof -
    have "fs ?w1 = fs w" by (simp add: check_source_eq)
    with that have "mirror_time_comparable env (fs ?w1)" by simp
    from check_destination_eq [OF this, of ?rc] rc show ?thesis
      by (simp add: check_eq or_eq_0_iff)
  qed
  from 1 2 3 4 show ?thesis by blast
qed

text \<open>
  What holds of the verdict where the comparison of the mirror time is defined:
  \<^verbatim>\<open>check\<close> returns the verdict of the base class OR-combined with one bit for each
  of the four problems of the validation; the verdict is zero exactly when the base
  class returned zero and none of the four problems was found; and every problem found
  is logged at ERROR severity, also after an earlier one was found (the number of ERROR
  entries is the number of problems).
\<close>

theorem verdict_aggregation:
  assumes "mirror_time_comparable env (fs w)"
  shows "fst (check env w) =
           Inr (super_check env OR of_bool (source_problem env (fs w))
                OR of_bool (target_not_directory_problem env (fs w))
                OR of_bool (target_not_repository_problem env (fs w))
                OR of_bool (timestamp_problem env (fs w)))
     \<and> (fst (check env w) = Inr 0) =
         (super_check env = 0 \<and> \<not> source_problem env (fs w)
          \<and> \<not> target_not_directory_problem env (fs w)
          \<and> \<not> target_not_repository_problem env (fs w)
          \<and> \<not> timestamp_problem env (fs w))
     \<and> length (filter (logged_at ERROR) (new_events w (snd (check env w)))) =
         of_bool (source_problem env (fs w))
         + of_bool (target_not_directory_problem env (fs w))
         + of_bool (target_not_repository_problem env (fs w))
         + of_bool (timestamp_problem env (fs w))"
proof -
  let ?w1 = "snd (check_source env (super_check env) w)"
  let ?rc = "fst (check_source env (super_check env) w)"
  have fs1: "fs ?w1 = fs w" by (simp add: check_source_eq)
  with assms have c: "mirror_time_comparable env (fs ?w1)" by simp
  have v: "fst (check env w) =
           Inr (super_check env OR of_bool (source_problem env (fs w))
                OR of_bool (target_not_directory_problem env (fs w))
                OR of_bool (target_not_repository_problem env (fs w))
                OR of_bool (timestamp_problem env (fs w)))"
    unfolding check_eq check_destination_eq [OF c] fs1
    by (simp add: check_source_eq or.assoc)
  have z: "(fst (check env w) = Inr 0) =
         (super_check env = 0 \<and> \<not> source_problem env (fs w)
          \<and> \<not> target_not_directory_problem env (fs w)
          \<and> \<not> target_not_repository_problem env (fs w)
          \<and> \<not> timestamp_problem env (fs w))"
    unfolding v by (simp add: or_eq_0_iff)
  have excl: "timestamp_problem env (fs w) \<Longrightarrow> isdir (fs w) (rp_out env)"
    using child_exists_parent [of "fs w" "rp_out env"] by (auto simp: timestamp_problem_def)
  have n: "length (filter (logged_at ERROR) (new_events w (snd (check env w)))) =
         of_bool (source_problem env (fs w))
         + of_bool (target_not_directory_problem env (fs w))
         + of_bool (target_not_repository_problem env (fs w))
         + of_bool (timestamp_problem env (fs w))"
    unfolding check_eq check_destination_eq [OF c] fs1
    using excl
    by (auto simp: check_source_eq new_events_def source_problem_def
        target_not_directory_problem_def target_not_repository_problem_def timestamp_problem_def
        dest: isdir_lstat)
  from v z n show ?thesis by blast
qed


theorem stale_timestamp_fails_witness:
  "lstat (fs interrupted_world) (append_path (rp_out example_env) ''rdiff-backup-data'')
   \<and> mirror_time (example_env\<lparr>mirror_time := Some 1614556800\<rparr>) = Some 1614556800
   \<and> curtime example_env \<le> 1614556800
   \<and> (\<exists>rc. fst (check (example_env\<lparr>mirror_time := Some 1614556800, force := True\<rparr>) interrupted_world) = Inr rc
         \<and> rc \<noteq> 0)"
proof -
  have h1: "lstat (fs interrupted_world) (append_path (rp_out (example_env\<lparr>mirror_time := Some 1614556800\<rparr>)) ''rdiff-backup-data'')"
    by (simp add: lstat_def append_path_def example_env_def interrupted_world_def interrupted_data_dir)
  have h2: "mirror_time (example_env\<lparr>mirror_time := Some 1614556800\<rparr>) = Some 1614556800"
    by simp
  have h3: "curtime (example_env\<lparr>mirror_time := Some 1614556800\<rparr>) \<le> 1614556800"
    by (simp add: example_env_def)
  from stale_timestamp_fails [OF h1 h2 h3, of True] h1 h2 h3 show ?thesis
    by simp
qed

theorem bad_source_fails_witness:
  "\<not> lstat (fs interrupted_world) (rp_in (example_env\<lparr>rp_in := [''nowhere''], mirror_time := Some 1614470400\<rparr>))
   \<and> mirror_time_comparable (example_env\<lparr>rp_in := [''nowhere''], mirror_time := Some 1614470400\<rparr>) (fs interrupted_world)
   \<and> fs (snd (check (example_env\<lparr>rp_in := [''nowhere''], mirror_time := Some 1614470400\<rparr>) interrupted_world))
       = fs interrupted_world
   \<and> filter mutating (new_events interrupted_world
         (snd (check (example_env\<lparr>rp_in := [''nowhere''], mirror_time := Some 1614470400\<rparr>) interrupted_world))) = []
   \<and> (\<exists>rc. fst (check (example_env\<lparr>rp_in := [''nowhere''], mirror_time := Some 1614470400\<rparr>) interrupted_world) = Inr rc
         \<and> rc \<noteq> 0)"
proof -
  have h1: "\<not> lstat (fs interrupted_world) (rp_in (example_env\<lparr>rp_in := [''nowhere''], mirror_time := Some 1614470400\<rparr>))"
    by (simp add: lstat_def interrupted_world_def interrupted_nowhere)
  have h2: "mirror_time_comparable (example_env\<lparr>rp_in := [''nowhere''], mirror_time := Some 1614470400\<rparr>) (fs interrupted_world)"
    by (simp add: mirror_time_comparable_def)
  from h1 have h: "\<not> lstat (fs interrupted_world) (rp_in (example_env\<lparr>rp_in := [''nowhere''], mirror_time := Some 1614470400\<rparr>))
      \<or> \<not> isdir (fs interrupted_world) (rp_in (example_env\<lparr>rp_in := [''nowhere''], mirror_time := Some 1614470400\<rparr>))"
    by (rule disjI1)
  from bad_source_fails [OF h] h1 h2 show ?thesis by blast
qed

theorem verdict_aggregation_witness:
  "mirror_time_comparable (example_env\<lparr>rp_in := [''nowhere''], mirror_time := Some 1614556800\<rparr>) (fs interrupted_world)
   \<and> source_problem (example_env\<lparr>rp_in := [''nowhere''], mirror_time := Some 1614556800\<rparr>) (fs interrupted_world)
   \<and> timestamp_problem (example_env\<lparr>rp_in := [''nowhere''], mirror_time := Some 1614556800\<rparr>) (fs interrupted_world)
   \<and> fst (check (example_env\<lparr>rp_in := [''nowhere''], mirror_time := Some 1614556800\<rparr>) interrupted_world) = Inr 1
   \<and> length (filter (logged_at ERROR) (new_events interrupted_world
         (snd (check (example_env\<lparr>rp_in := [''nowhere''], mirror_time := Some 1614556800\<rparr>) interrupted_world)))) = 2"
proof -
  define E where "E = example_env\<lparr>rp_in := [''nowhere''], mirror_time := Some 1614556800\<rparr>"
  have h: "mirror_time_comparable E (fs interrupted_world)"
    by (simp add: mirror_time_comparable_def E_def)
  have sp: "source_problem E (fs interrupted_world)"
    by (simp add: source_problem_def E_def lstat_def interrupted_world_def interrupted_nowhere)
  have ts: "timestamp_problem E (fs interrupted_world)"
    by (simp add: timestamp_problem_def E_def lstat_def interrupted_world_def example_env_def
        interrupted_data_dir)
  have nd: "\<not> target_not_directory_problem E (fs interrupted_world)"
    by (simp add: target_not_directory_problem_def E_def lstat_def isdir_def interrupted_world_def
        example_env_def interrupted_repo)
  have nr: "\<not> target_not_repository_problem E (fs interrupted_world)"
    by (simp add: target_not_repository_problem_def E_def lstat_def isdir_def interrupted_world_def
        example_env_def interrupted_data_dir)
  have sc: "super_check E = 0" by (simp add: E_def example_env_def)
  from verdict_aggregation [OF h] h sp ts nd nr sc show ?thesis
    unfolding E_def by simp
qed

subsection \<open>Clearing a failed initial backup\<close>

lemma map_of_map_child:
  "map_of (map (\<lambda>(k, c). if k = x then (k, g c) else (k, c)) es) y
     = (if y = x then map_option g (map_of es y) else map_of es y)"
  by (induction es) auto

lemma lookup_modify_at:
  "lookup t p = Some (Dir es) \<Longrightarrow> lookup (modify_at f t p) p = Some (Dir (f es))"
proof (induction t p rule: lookup.induct)
  case (1 n)
  then show ?case by simp
next
  case (2 x xs)
  then show ?case by simp
next
  case (3 ds x xs)
  then show ?case
    by (auto simp: map_of_map_child split: option.splits)
qed

lemma modify_at_modify_at:
  "modify_at g (modify_at f t p) p = modify_at (g \<circ> f) t p"
proof (induction f t p rule: modify_at.induct)
  case (1 f p)
  then show ?case by simp
next
  case (2 f es)
  then show ?case by simp
next
  case (3 f es x xs)
  then show ?case by (auto simp: case_prod_beta)
qed

lemma isdir_child:
  "lookup t p = Some (Dir es) \<Longrightarrow>
     isdir t (p @ [n]) = (case map_of es n of Some (Dir ds) \<Rightarrow> True | _ \<Rightarrow> False)"
  by (simp add: isdir_def lookup_snoc)

lemma lstat_child:
  "lookup t p = Some (Dir es) \<Longrightarrow> lstat t (p @ [n]) = (map_of es n \<noteq> None)"
  by (simp add: lstat_def lookup_snoc)

lemma delete_child:
  assumes "lookup (fs w) p = Some (Dir es)" and "map_of es n \<noteq> None"
  shows "delete (p @ [n]) w =
     (Inr (), w\<lparr>fs := modify_at (filter (\<lambda>(k, c). k \<noteq> n)) (fs w) p,
                 trace := trace w @ [Delete (p @ [n])]\<rparr>)"
  using assms by (simp add: delete_def Let_def record_event_def lstat_child)

lemma map_of_filter_other:
  "m \<noteq> n \<Longrightarrow> map_of (filter (\<lambda>(k, c). k \<noteq> n) es) m = map_of es m"
  by (induction es) auto

lemma distinct_keys_entry:
  "distinct (map fst es) \<Longrightarrow> (k, c) \<in> set es \<Longrightarrow> map_of es k = Some c"
  by simp

lemma key_has_entry: "n \<in> fst ` set es \<Longrightarrow> \<exists>c. map_of es n = Some c"
  by (cases "map_of es n") (auto simp: map_of_eq_None_iff)

lemma delete_remaining_files:
  assumes "lookup (fs w) p = Some (Dir es)" and "distinct (map fst es)"
    and "set names \<subseteq> fst ` set es" and "distinct names"
  shows "\<exists>w1. delete_remaining p names w = (Inr (), w1)
     \<and> lookup (fs w1) p = Some (Dir (filter (\<lambda>(k, c). \<not> (k \<in> set names \<and> c = File)) es))
     \<and> trace w1 = trace w @ map (\<lambda>n. Delete (p @ [n])) (filter (\<lambda>n. map_of es n = Some File) names)"
  using assms
proof (induction names arbitrary: w es)
  case Nil
  then show ?case by simp
next
  case (Cons n names)
  from Cons.prems obtain c where c: "map_of es n = Some c"
    using key_has_entry [of n es] by auto
  from Cons.prems have nn: "n \<notin> set names" and dn: "distinct names"
    and sub: "set names \<subseteq> fst ` set es" by auto
  show ?case
  proof (cases c)
    case File
    let ?es1 = "filter (\<lambda>(k, c). k \<noteq> n) es"
    let ?w1 = "w\<lparr>fs := modify_at (filter (\<lambda>(k, c). k \<noteq> n)) (fs w) p,
                   trace := trace w @ [Delete (p @ [n])]\<rparr>"
    from Cons.prems(1) c have d: "delete (p @ [n]) w = (Inr (), ?w1)"
      by (simp add: delete_child)
    from Cons.prems(1) c File have nd: "\<not> isdir (fs w) (p @ [n])"
      by (simp add: isdir_child)
    have l1: "lookup (fs ?w1) p = Some (Dir ?es1)"
      using Cons.prems(1) by (simp add: lookup_modify_at)
    have d1: "distinct (map fst ?es1)"
      using Cons.prems(2) by (simp add: distinct_map_filter)
    have s1: "set names \<subseteq> fst ` set ?es1"
    proof
      fix m assume m: "m \<in> set names"
      with sub obtain e where "e \<in> set es" "fst e = m" by auto
      moreover from m nn have "m \<noteq> n" by auto
      ultimately show "m \<in> fst ` set ?es1" by (force simp: case_prod_beta)
    qed
    from Cons.IH [OF l1 d1 s1 dn] obtain w2 where
      r: "delete_remaining p names ?w1 = (Inr (), w2)"
      and l2: "lookup (fs w2) p = Some (Dir (filter (\<lambda>(k, c). \<not> (k \<in> set names \<and> c = File)) ?es1))"
      and t2: "trace w2 = trace ?w1 @ map (\<lambda>n. Delete (p @ [n])) (filter (\<lambda>m. map_of ?es1 m = Some File) names)"
      by blast
    have f: "filter (\<lambda>(k, c). \<not> (k \<in> set names \<and> c = File)) ?es1
           = filter (\<lambda>(k, c). \<not> (k \<in> set (n # names) \<and> c = File)) es"
    proof -
      have "\<And>k c1. (k, c1) \<in> set es \<Longrightarrow> k = n \<Longrightarrow> c1 = File"
        using distinct_keys_entry [OF Cons.prems(2)] c File by auto
      then show ?thesis
        by (auto simp: case_prod_beta intro!: filter_cong)
    qed
    have g: "filter (\<lambda>m. map_of ?es1 m = Some File) names = filter (\<lambda>m. map_of es m = Some File) names"
    proof (rule filter_cong [OF refl])
      fix m assume "m \<in> set names"
      with nn have "m \<noteq> n" by auto
      from map_of_filter_other [OF this, of es]
      show "(map_of ?es1 m = Some File) = (map_of es m = Some File)"
        by (rule arg_cong)
    qed
    from c File have h: "filter (\<lambda>m. map_of es m = Some File) (n # names)
        = n # filter (\<lambda>m. map_of es m = Some File) names" by simp
    from d nd r have "delete_remaining p (n # names) w = (Inr (), w2)"
      by (simp add: append_path_def)
    with l2 t2 f g h show ?thesis by simp
  next
    case (Dir ds)
    from Cons.prems(1) c Dir have isd: "isdir (fs w) (p @ [n])"
      by (simp add: isdir_child)
    from Cons.IH [OF Cons.prems(1) Cons.prems(2) sub dn] obtain w2 where
      r: "delete_remaining p names w = (Inr (), w2)"
      and l2: "lookup (fs w2) p = Some (Dir (filter (\<lambda>(k, c). \<not> (k \<in> set names \<and> c = File)) es))"
      and t2: "trace w2 = trace w @ map (\<lambda>n. Delete (p @ [n])) (filter (\<lambda>m. map_of es m = Some File) names)"
      by blast
    have f: "filter (\<lambda>(k, c). \<not> (k \<in> set names \<and> c = File)) es
           = filter (\<lambda>(k, c). \<not> (k \<in> set (n # names) \<and> c = File)) es"
    proof -
      have "\<And>k c1. (k, c1) \<in> set es \<Longrightarrow> k = n \<Longrightarrow> c1 \<noteq> File"
        using distinct_keys_entry [OF Cons.prems(2)] c Dir by auto
      then show ?thesis
        by (auto simp: case_prod_beta intro!: filter_cong)
    qed
    from c Dir have h: "filter (\<lambda>m. map_of es m = Some File) (n # names)
        = filter (\<lambda>m. map_of es m = Some File) names" by simp
    from isd r have "delete_remaining p (n # names) w = (Inr (), w2)"
      by (simp add: append_path_def)
    with l2 t2 f h show ?thesis by simp
  qed
qed


lemma delete_dir_no_files_child:
  assumes "lookup (fs w) p = Some (Dir es)" and "map_of es n = Some (Dir ds)"
    and "\<not> security_violation env"
  shows "delete_dir_no_files env (p @ [n]) w =
     (if contains_files (Dir ds)
      then (Inl RPathException, w\<lparr>trace := trace w @ [Delete_dir_no_files (p @ [n])]\<rparr>)
      else (Inr (), w\<lparr>fs := modify_at (filter (\<lambda>(k, c). k \<noteq> n)) (fs w) p,
                       trace := trace w @ [Delete_dir_no_files (p @ [n])]\<rparr>))"
  using assms
  by (simp add: delete_dir_no_files_def Let_def record_event_def lookup_snoc del: contains_files.simps)

lemma listdir_dir: "lookup t p = Some (Dir es) \<Longrightarrow> listdir t p = Inr (map fst es)"
  by (simp add: listdir_def)

lemma filter_absent_key:
  "n \<notin> fst ` set es \<Longrightarrow> filter (\<lambda>(k, c). k \<noteq> n) es = es"
  by (induction es) auto

lemma remove1_distinct_keys:
  "distinct (map fst es) \<Longrightarrow>
     remove1 n (map fst es) = map fst (filter (\<lambda>(k, c). k \<noteq> n) es)"
  by (induction es) (auto simp: filter_absent_key)

text \<open>
  C4. Given a data directory with distinct entry names whose \<^verbatim>\<open>increments\<close> entry is
  a directory that contains no files, on a connection that accepts the request,
  \<^verbatim>\<open>_fix_failed_initial_backup\<close> returns normally; after its announcement it first
  deletes the increments directory and then, in listing order, exactly the remaining
  entries that are files; what is left of the data directory are its other directories,
  so the data directory is empty when every entry but \<^verbatim>\<open>increments\<close> was a file (as for
  one error log and one metadata mirror).
\<close>

theorem repair_happy_path:
  assumes "lookup (fs w) rp_dir = Some (Dir es)" and "distinct (map fst es)"
    and "map_of es ''increments'' = Some (Dir ds)" and "\<not> contains_files (Dir ds)"
    and "\<not> security_violation env"
  shows "\<exists>w1. fix_failed_initial_backup env rp_dir w = (Inr (), w1)
     \<and> new_events w w1 =
         [Log found_interrupted_msg (Some DEFAULT), Delete_dir_no_files (rp_dir @ [''increments''])]
         @ map (\<lambda>n. Delete (rp_dir @ [n]))
             (filter (\<lambda>n. n \<noteq> ''increments'' \<and> map_of es n = Some File) (map fst es))
     \<and> lookup (fs w1) rp_dir = Some (Dir (filter (\<lambda>(k, c). k \<noteq> ''increments'' \<and> c \<noteq> File) es))
     \<and> (list_all (\<lambda>(k, c). k = ''increments'' \<or> c = File) es
          \<longrightarrow> lookup (fs w1) rp_dir = Some (Dir []))"
proof -
  let ?incs = "''increments''"
  let ?es2 = "filter (\<lambda>(k, c). k \<noteq> ?incs) es"
  let ?names = "map fst ?es2"
  define wl where "wl = log found_interrupted_msg DEFAULT w"
  define w2 where "w2 = wl\<lparr>fs := modify_at (filter (\<lambda>(k, c). k \<noteq> ?incs)) (fs wl) rp_dir,
                       trace := trace wl @ [Delete_dir_no_files (rp_dir @ [?incs])]\<rparr>"
  have lw: "lookup (fs wl) rp_dir = Some (Dir es)" using assms(1) by (simp add: wl_def)
  have mem: "?incs \<in> set (map fst es)"
    using map_of_SomeD [OF assms(3)] by force
  have dd: "delete_dir_no_files env (rp_append rp_dir ?incs) wl = (Inr (), w2)"
    using delete_dir_no_files_child [OF lw assms(3) assms(5)] assms(4)
    by (simp add: rp_append_def w2_def)
  have l2: "lookup (fs w2) rp_dir = Some (Dir ?es2)"
    using lw by (simp add: w2_def lookup_modify_at)
  have d2: "distinct (map fst ?es2)" using assms(2) by (simp add: distinct_map_filter)
  have s2: "set ?names \<subseteq> fst ` set ?es2" by simp
  from delete_remaining_files [OF l2 d2 s2 d2]
  obtain w3 where r: "delete_remaining rp_dir ?names w2 = (Inr (), w3)"
    and l3: "lookup (fs w3) rp_dir = Some (Dir (filter (\<lambda>(k, c). \<not> (k \<in> set ?names \<and> c = File)) ?es2))"
    and t3: "trace w3 = trace w2 @ map (\<lambda>n. Delete (rp_dir @ [n])) (filter (\<lambda>n. map_of ?es2 n = Some File) ?names)"
    by auto
  have fx: "fix_failed_initial_backup env rp_dir w = (Inr (), w3)"
    using mem dd r listdir_dir [OF lw] remove1_distinct_keys [OF assms(2), of ?incs]
    by (simp add: fix_failed_initial_backup_def Let_def wl_def [symmetric])
  have f: "filter (\<lambda>(k, c). \<not> (k \<in> set ?names \<and> c = File)) ?es2
         = filter (\<lambda>(k, c). k \<noteq> ?incs \<and> c \<noteq> File) es"
  proof -
    have "\<And>k c. (k, c) \<in> set es \<Longrightarrow> k \<noteq> ?incs \<Longrightarrow> k \<in> set ?names"
      by force
    then show ?thesis
      unfolding filter_filter by (intro filter_cong [OF refl]) auto
  qed
  have g: "filter (\<lambda>n. map_of ?es2 n = Some File) ?names
         = filter (\<lambda>n. n \<noteq> ?incs \<and> map_of es n = Some File) (map fst es)"
  proof -
    have "?names = filter (\<lambda>n. n \<noteq> ?incs) (map fst es)"
      by (induction es) auto
    moreover have "filter (\<lambda>n. map_of ?es2 n = Some File) (filter (\<lambda>n. n \<noteq> ?incs) (map fst es))
        = filter (\<lambda>n. n \<noteq> ?incs \<and> map_of es n = Some File) (map fst es)"
      unfolding filter_filter
    proof (rule filter_cong [OF refl])
      fix m
      show "(m \<noteq> ?incs \<and> map_of ?es2 m = Some File) = (m \<noteq> ?incs \<and> map_of es m = Some File)"
        using map_of_filter_other [of m ?incs es] by auto
    qed
    ultimately show ?thesis by simp
  qed
  have ne: "new_events w w3 =
         [Log found_interrupted_msg (Some DEFAULT), Delete_dir_no_files (rp_dir @ [?incs])]
         @ map (\<lambda>n. Delete (rp_dir @ [n]))
             (filter (\<lambda>n. n \<noteq> ?incs \<and> map_of es n = Some File) (map fst es))"
    using t3 [unfolded g] by (simp add: new_events_def w2_def wl_def)
  have l: "lookup (fs w3) rp_dir = Some (Dir (filter (\<lambda>(k, c). k \<noteq> ?incs \<and> c \<noteq> File) es))"
    using l3 f by simp
  have e: "filter (\<lambda>(k, c). k \<noteq> ?incs \<and> c \<noteq> File) es = []"
    if "list_all (\<lambda>(k, c). k = ?incs \<or> c = File) es"
    using that by (induction es) auto
  from fx ne l e show ?thesis by auto
qed

lemma fix_rejected:
  assumes "lookup (fs w) rp_dir = Some (Dir es)"
    and "map_of es ''increments'' = Some (Dir ds)" and "contains_files (Dir ds)"
    and "\<not> security_violation env"
  shows "fix_failed_initial_backup env rp_dir w =
     (Inr (), w\<lparr>trace := trace w @
        [Log found_interrupted_msg (Some DEFAULT),
         Delete_dir_no_files (rp_dir @ [''increments'']),
         Log increments_contain_files_msg (Some INFO)]\<rparr>)"
proof -
  define wl where "wl = log found_interrupted_msg DEFAULT w"
  have lw: "lookup (fs wl) rp_dir = Some (Dir es)" using assms(1) by (simp add: wl_def)
  have mem: "''increments'' \<in> set (map fst es)"
    using map_of_SomeD [OF assms(2)] by force
  have dd: "delete_dir_no_files env (rp_append rp_dir ''increments'') wl
      = (Inl RPathException, wl\<lparr>trace := trace wl @ [Delete_dir_no_files (rp_dir @ [''increments''])]\<rparr>)"
    using delete_dir_no_files_child [OF lw assms(2) assms(4)] assms(3)
    by (simp add: rp_append_def)
  have "fix_failed_initial_backup env rp_dir w =
      (Inr (), log increments_contain_files_msg INFO
         (wl\<lparr>trace := trace wl @ [Delete_dir_no_files (rp_dir @ [''increments''])]\<rparr>))"
    using mem dd listdir_dir [OF lw]
    by (simp add: fix_failed_initial_backup_def Let_def wl_def [symmetric])
  then show ?thesis
    by (simp add: wl_def log_def record_event_def)
qed

text \<open>
  C5, as the code has it. Given a data directory whose \<^verbatim>\<open>increments\<close> directory
  contains a file, on a connection that accepts the request,
  \<^verbatim>\<open>_fix_failed_initial_backup\<close> returns normally and leaves the whole filesystem as it
  was: the rejected deletion of the increments directory is its only call on a location,
  and no file is deleted after it. It logs twice: its announcement at DEFAULT severity,
  then the rejection at INFO severity.
\<close>

theorem repair_abort:
  assumes "lookup (fs w) rp_dir = Some (Dir es)"
    and "map_of es ''increments'' = Some (Dir ds)" and "contains_files (Dir ds)"
    and "\<not> security_violation env"
  shows "fst (fix_failed_initial_backup env rp_dir w) = Inr ()
     \<and> fs (snd (fix_failed_initial_backup env rp_dir w)) = fs w
     \<and> new_events w (snd (fix_failed_initial_backup env rp_dir w)) =
         [Log found_interrupted_msg (Some DEFAULT),
          Delete_dir_no_files (rp_dir @ [''increments'']),
          Log increments_contain_files_msg (Some INFO)]"
  by (simp add: fix_rejected [OF assms] new_events_def)

lemma advanced_data_dir:
  "lookup (fs advanced_world) [''repo'', ''rdiff-backup-data'']
     = Some (Dir [(''error_log.2021-03-01.data'', File),
                  (''increments'', Dir [(''a.txt.2021-03-01.diff.gz'', File)]),
                  (''mirror_metadata.2021-03-01.snapshot.gz'', File)])"
  by (simp add: advanced_world_def advanced_fs_def)

theorem repair_abort_witness:
  "lookup (fs advanced_world) [''repo'', ''rdiff-backup-data'']
     = Some (Dir [(''error_log.2021-03-01.data'', File),
                  (''increments'', Dir [(''a.txt.2021-03-01.diff.gz'', File)]),
                  (''mirror_metadata.2021-03-01.snapshot.gz'', File)])
   \<and> contains_files (Dir [(''a.txt.2021-03-01.diff.gz'', File)])
   \<and> \<not> security_violation example_env
   \<and> fs (snd (fix_failed_initial_backup example_env [''repo'', ''rdiff-backup-data''] advanced_world))
       = fs advanced_world
   \<and> new_events advanced_world
         (snd (fix_failed_initial_backup example_env [''repo'', ''rdiff-backup-data''] advanced_world)) =
         [Log found_interrupted_msg (Some DEFAULT),
          Delete_dir_no_files [''repo'', ''rdiff-backup-data'', ''increments''],
          Log increments_contain_files_msg (Some INFO)]"
proof -
  have m: "map_of [(''error_log.2021-03-01.data'', File),
                  (''increments'', Dir [(''a.txt.2021-03-01.diff.gz'', File)]),
                  (''mirror_metadata.2021-03-01.snapshot.gz'', File)] ''increments''
           = Some (Dir [(''a.txt.2021-03-01.diff.gz'', File)])" by simp
  have c: "contains_files (Dir [(''a.txt.2021-03-01.diff.gz'', File)])" by simp
  have s: "\<not> security_violation example_env" by (simp add: example_env_def)
  from repair_abort [OF advanced_data_dir m c s] advanced_data_dir c s show ?thesis by simp
qed

text \<open>
  C5 as the claim states it (``logs only at INFO severity'') fails: on a failed-initial
  data directory whose increments directory holds a file, the announcement is logged at
  DEFAULT severity, which is not INFO.
\<close>

theorem repair_abort_logs_default_counterexample:
  "is_failed_initial_backup (fs advanced_world) [''repo'', ''rdiff-backup-data''] = Inr True
   \<and> lookup (fs advanced_world) [''repo'', ''rdiff-backup-data'', ''increments'']
       = Some (Dir [(''a.txt.2021-03-01.diff.gz'', File)])
   \<and> Log found_interrupted_msg (Some DEFAULT)
       \<in> set (new_events advanced_world
           (snd (fix_failed_initial_backup example_env [''repo'', ''rdiff-backup-data''] advanced_world)))
   \<and> \<not> logged_at INFO (Log found_interrupted_msg (Some DEFAULT))"
proof -
  have m: "map_of [(''error_log.2021-03-01.data'', File),
                  (''increments'', Dir [(''a.txt.2021-03-01.diff.gz'', File)]),
                  (''mirror_metadata.2021-03-01.snapshot.gz'', File)] ''increments''
           = Some (Dir [(''a.txt.2021-03-01.diff.gz'', File)])" by simp
  have c: "contains_files (Dir [(''a.txt.2021-03-01.diff.gz'', File)])" by simp
  have s: "\<not> security_violation example_env" by (simp add: example_env_def)
  have a: "is_failed_initial_backup (fs advanced_world) [''repo'', ''rdiff-backup-data''] = Inr True"
    by (simp add: is_failed_initial_backup_def lstat_def listdir_def advanced_data_dir startswith_def)
  have b: "lookup (fs advanced_world) [''repo'', ''rdiff-backup-data'', ''increments'']
       = Some (Dir [(''a.txt.2021-03-01.diff.gz'', File)])"
    by (simp add: advanced_world_def advanced_fs_def)
  from fix_rejected [OF advanced_data_dir m c s] a b show ?thesis
    by (simp add: new_events_def)
qed

lemma interrupted_world_data_dir:
  "lookup (fs interrupted_world) [''repo'', ''rdiff-backup-data'']
     = Some (Dir [(''error_log.2021-03-01.data'', File),
                  (''increments'', Dir []),
                  (''mirror_metadata.2021-03-01.snapshot.gz'', File)])"
  by (simp add: interrupted_world_def interrupted_data_dir)

theorem repair_happy_path_witness:
  "lookup (fs interrupted_world) [''repo'', ''rdiff-backup-data'']
     = Some (Dir [(''error_log.2021-03-01.data'', File),
                  (''increments'', Dir []),
                  (''mirror_metadata.2021-03-01.snapshot.gz'', File)])
   \<and> \<not> contains_files (Dir [])
   \<and> \<not> security_violation example_env
   \<and> (\<exists>w1. fix_failed_initial_backup example_env [''repo'', ''rdiff-backup-data''] interrupted_world
             = (Inr (), w1)
         \<and> new_events interrupted_world w1 =
             [Log found_interrupted_msg (Some DEFAULT),
              Delete_dir_no_files [''repo'', ''rdiff-backup-data'', ''increments''],
              Delete [''repo'', ''rdiff-backup-data'', ''error_log.2021-03-01.data''],
              Delete [''repo'', ''rdiff-backup-data'', ''mirror_metadata.2021-03-01.snapshot.gz'']]
         \<and> lookup (fs w1) [''repo'', ''rdiff-backup-data''] = Some (Dir []))"
proof -
  have d: "distinct (map fst [(''error_log.2021-03-01.data'', File),
                  (''increments'', Dir []),
                  (''mirror_metadata.2021-03-01.snapshot.gz'', File)])" by simp
  have m: "map_of [(''error_log.2021-03-01.data'', File),
                  (''increments'', Dir []),
                  (''mirror_metadata.2021-03-01.snapshot.gz'', File)] ''increments''
           = Some (Dir [])" by simp
  have c: "\<not> contains_files (Dir [])" by simp
  have s: "\<not> security_violation example_env" by (simp add: example_env_def)
  from repair_happy_path [OF interrupted_world_data_dir d m c s] interrupted_world_data_dir c s
  show ?thesis by simp
qed

subsection \<open>setup on a valid repository\<close>

lemma seq_invoke_world:
  "\<exists>k. snd (seq (map (invoke env) es) w) = w\<lparr>trace := trace w @ take k es\<rparr>"
proof (induction es arbitrary: w)
  case Nil
  show ?case by simp
next
  case (Cons e es)
  show ?case
  proof (cases "raises env e")
    case None
    from Cons [of "record_event e w"] obtain k where
      "snd (seq (map (invoke env) es) (record_event e w))
         = (record_event e w)\<lparr>trace := trace (record_event e w) @ take k es\<rparr>"
      by blast
    with None have "snd (seq (map (invoke env) (e # es)) w) = w\<lparr>trace := trace w @ take (Suc k) (e # es)\<rparr>"
      by (simp add: invoke_def record_event_def)
    then show ?thesis by blast
  next
    case (Some err)
    then have "snd (seq (map (invoke env) (e # es)) w) = w\<lparr>trace := trace w @ take (Suc 0) (e # es)\<rparr>"
      by (simp add: invoke_def record_event_def)
    then show ?thesis by blast
  qed
qed

lemma setup_increments_present:
  assumes "lstat (fs w) (append_path rp_data_dir ''increments'')"
  shows "\<exists>evs. snd (setup_increments env rp_data_dir w) = w\<lparr>trace := trace w @ evs\<rparr>
     \<and> filter mutating evs = []"
proof -
  define rp_out1 where "rp_out1 = (if chars_to_quote env then quoted_rpaths env (rp_out env) else rp_out env)"
  define evs where "evs =
     [UpdateGlobal ''rbdir'' rp_data_dir, BackupInitConnections (rp_in env) (rp_out env),
      Backup_set_globals (rp_in env) (force env)]
     @ (if chars_to_quote env then [Quoted_rpaths (rp_out env)] else [])
     @ [Init_user_group_mapping rp_out1, Final_init rp_out1, Set_select (rp_in env),
        Warn_if_infinite_recursion (rpin env) (rpout env)]"
  have nm: "\<forall>e \<in> set evs. \<not> mutating e" by (simp add: evs_def)
  obtain k where k: "snd (seq (map (invoke env) evs) w) = w\<lparr>trace := trace w @ take k evs\<rparr>"
    using seq_invoke_world by blast
  have "snd (setup_increments env rp_data_dir w) = snd (seq (map (invoke env) evs) w)"
    using assms
    by (simp add: setup_increments_def Let_def evs_def rp_out1_def split: prod.splits sum.splits)
  with k have "snd (setup_increments env rp_data_dir w) = w\<lparr>trace := trace w @ take k evs\<rparr>"
    by simp
  moreover from nm have "filter mutating (take k evs) = []"
    by (auto simp: filter_empty_conv dest: in_set_takeD)
  ultimately show ?thesis by blast
qed

lemma setup_target_present:
  assumes "isdir t (rp_out env)" and "fs w = t"
  shows "setup_target env w = (Inr (), w)"
proof -
  from assms(1) have "lstat t (rp_out env)"
    by (auto simp: isdir_def lstat_def split: option.splits)
  with assms show ?thesis by (simp add: setup_target_def)
qed

lemma setup_valid_world:
  assumes "isdir (fs w) (rp_out env)"
    and "isdir (fs w) (rp_out env @ [''rdiff-backup-data''])"
    and "lstat (fs w) (rp_out env @ [''rdiff-backup-data'', ''increments''])"
    and "is_failed_initial_backup (fs w) (rp_out env @ [''rdiff-backup-data'']) = Inr False"
  shows "\<exists>evs. snd (setup_action env w) = w\<lparr>trace := trace w @ evs\<rparr> \<and> filter mutating evs = []"
proof (cases "super_setup env = 0")
  case False
  then have "snd (setup_action env w) = w\<lparr>trace := trace w @ []\<rparr>"
    by (simp add: setup_action_def)
  moreover have "filter mutating ([] :: event list) = []" by simp
  ultimately show ?thesis by blast
next
  case True
  let ?data = "rp_out env @ [''rdiff-backup-data'']"
  define w2 where "w2 = record_event (Globals_rbdir ?data) w"
  have fs2: "fs w2 = fs w" by (simp add: w2_def record_event_def)
  from assms(2) have ld: "lstat (fs w2) ?data"
    by (auto simp: isdir_def lstat_def fs2 split: option.splits)
  from assms(3) have li: "lstat (fs w2) (append_path ?data ''increments'')"
    by (simp add: append_path_def fs2)
  from setup_increments_present [OF li, of env] obtain evs where
    e: "snd (setup_increments env ?data w2) = w2\<lparr>trace := trace w2 @ evs\<rparr>"
    and nm: "filter mutating evs = []" by blast
  have "setup_action env w = setup_increments env ?data w2"
    using True setup_target_present [OF assms(1) refl] ld assms(4)
    by (simp add: setup_action_def Let_def append_path_def w2_def [symmetric] fs2)
  with e have "snd (setup_action env w) = w\<lparr>trace := trace w @ (Globals_rbdir ?data # evs)\<rparr>"
    by (simp add: w2_def record_event_def)
  moreover from nm have "filter mutating (Globals_rbdir ?data # evs) = []" by simp
  ultimately show ?thesis by blast
qed

text \<open>
  C7. On a repository whose target directory, data directory and increments directory
  exist and whose data directory is not classified as a failed initial backup,
  \<^verbatim>\<open>setup\<close> leaves the filesystem as it was and makes no mutating call (no delete,
  no mkdir, no makedirs, no chmod): it only calls its collaborators. The same holds
  when \<^verbatim>\<open>setup\<close> is run a second time on the result.
\<close>

theorem setup_valid_is_structural_noop:
  assumes "isdir (fs w) (rp_out env)"
    and "isdir (fs w) (rp_out env @ [''rdiff-backup-data''])"
    and "lstat (fs w) (rp_out env @ [''rdiff-backup-data'', ''increments''])"
    and "is_failed_initial_backup (fs w) (rp_out env @ [''rdiff-backup-data'']) = Inr False"
  shows "fs (snd (setup_action env w)) = fs w
     \<and> filter mutating (new_events w (snd (setup_action env w))) = []
     \<and> fs (snd (setup_action env (snd (setup_action env w)))) = fs w
     \<and> filter mutating (new_events w (snd (setup_action env (snd (setup_action env w))))) = []"
proof -
  from setup_valid_world [OF assms] obtain e1 where
    1: "snd (setup_action env w) = w\<lparr>trace := trace w @ e1\<rparr>" and n1: "filter mutating e1 = []"
    by blast
  let ?w1 = "w\<lparr>trace := trace w @ e1\<rparr>"
  from assms have "isdir (fs ?w1) (rp_out env)"
    "isdir (fs ?w1) (rp_out env @ [''rdiff-backup-data''])"
    "lstat (fs ?w1) (rp_out env @ [''rdiff-backup-data'', ''increments''])"
    "is_failed_initial_backup (fs ?w1) (rp_out env @ [''rdiff-backup-data'']) = Inr False"
    by simp_all
  from setup_valid_world [OF this] obtain e2 where
    2: "snd (setup_action env ?w1) = ?w1\<lparr>trace := trace ?w1 @ e2\<rparr>" and n2: "filter mutating e2 = []"
    by blast
  from 1 2 n1 n2 show ?thesis by (simp add: new_events_def)
qed

lemma valid_repo: "isdir (fs valid_world) [''repo'']"
  by (simp add: isdir_def valid_world_def valid_fs_def)

lemma valid_data_dir:
  "lookup (fs valid_world) [''repo'', ''rdiff-backup-data'']
     = Some (Dir [(''current_mirror.2021-03-01.data'', File),
                   (''error_log.2021-03-01.data'', File),
                   (''increments'', Dir []),
                   (''mirror_metadata.2021-03-01.snapshot.gz'', File)])"
  by (simp add: valid_world_def valid_fs_def)

lemma valid_increments:
  "lookup (fs valid_world) [''repo'', ''rdiff-backup-data'', ''increments''] = Some (Dir [])"
  by (simp add: valid_world_def valid_fs_def)

theorem setup_valid_is_structural_noop_witness:
  "isdir (fs valid_world) (rp_out example_env)
   \<and> isdir (fs valid_world) (rp_out example_env @ [''rdiff-backup-data''])
   \<and> lstat (fs valid_world) (rp_out example_env @ [''rdiff-backup-data'', ''increments''])
   \<and> is_failed_initial_backup (fs valid_world) (rp_out example_env @ [''rdiff-backup-data'']) = Inr False
   \<and> fs (snd (setup_action example_env valid_world)) = fs valid_world
   \<and> filter mutating (new_events valid_world (snd (setup_action example_env valid_world))) = []
   \<and> fs (snd (setup_action example_env (snd (setup_action example_env valid_world)))) = fs valid_world"
proof -
  have r: "rp_out example_env = [''repo'']" by (simp add: example_env_def)
  have h1: "isdir (fs valid_world) (rp_out example_env)"
    unfolding r by (rule valid_repo)
  have h2: "isdir (fs valid_world) (rp_out example_env @ [''rdiff-backup-data''])"
    unfolding r by (simp add: isdir_def valid_data_dir)
  have h3: "lstat (fs valid_world) (rp_out example_env @ [''rdiff-backup-data'', ''increments''])"
    unfolding r by (simp add: lstat_def valid_increments)
  have h4: "is_failed_initial_backup (fs valid_world) (rp_out example_env @ [''rdiff-backup-data'']) = Inr False"
    unfolding r
    by (simp add: is_failed_initial_backup_def lstat_def listdir_def valid_data_dir startswith_def)
  from setup_valid_is_structural_noop [OF h1 h2 h3 h4] h1 h2 h3 h4 show ?thesis by simp
qed

subsection \<open>check on a repository without a recorded mirror time\<close>





end
